(* ===== verification/Prelude.thy ===== *)
theory Prelude
  imports Main "HOL-Library.Word" "HOL-Library.Char_ord" "HOL-Library.List_Lexorder"
begin

text \<open>
  Shared vocabulary of the development: Go's bytes and strings, the error monad that stands
  for \<open>(value, error)\<close> results, runs that may panic, and the two codec interfaces
  (a decoder that inverts an encoder, and a decoder that inverts it in front of any rest).

  A Go \<open>string\<close> is a sequence of bytes and is modelled by HOL's \<open>string\<close>, whose
  characters are exactly the bytes 0 to 255. A \<open>[]byte\<close> is a list of 8-bit words, and
  the conversions \<open>[]byte(s)\<close> and \<open>string(b)\<close> are \<open>bytes_of\<close> and \<open>string_of\<close>.
\<close>

unbundle bit_operations_syntax

section \<open>Theorem collections\<close>

named_theorems run_simps \<open>evaluation of the error monad and of runs\<close>
named_theorems codec_simps \<open>decoders applied to their encoders\<close>

section \<open>Bytes and strings\<close>

type_synonym byte = "8 word"
type_synonym bytes = "8 word list"
type_synonym uint32 = "32 word"
type_synonym uint64 = "64 word"

definition bytes_of :: "string \<Rightarrow> bytes" where
  "bytes_of s = map of_char s"

definition string_of :: "bytes \<Rightarrow> string" where
  "string_of b = map (\<lambda>w. char_of (unat w)) b"

lemma unat_of_char [simp]: "unat (of_char c :: byte) = of_char c"
proof -
  have "unat (of_nat (of_char c) :: byte) = of_char c mod 256"
    by (simp add: unat_of_nat)
  then show ?thesis by (simp add: of_nat_of_char)
qed

lemma of_char_of_unat [simp]: "(of_char (char_of (unat w)) :: byte) = w"
proof -
  have "unat (of_char (char_of (unat w)) :: byte) = of_char (char_of (unat w) :: char)"
    by simp
  also have "\<dots> = unat w mod 256" by (rule of_char_of)
  also have "\<dots> = unat w" using unsigned_less [of w, where ?'a = nat] by simp
  finally show ?thesis by (simp add: word_unat_eq_iff)
qed

lemma string_of_bytes_of [simp]: "string_of (bytes_of s) = s"
  by (simp add: string_of_def bytes_of_def comp_def map_idI)

lemma bytes_of_string_of [simp]: "bytes_of (string_of b) = b"
  by (simp add: string_of_def bytes_of_def comp_def map_idI)

lemma bytes_of_append [simp]: "bytes_of (s @ t) = bytes_of s @ bytes_of t"
  by (simp add: bytes_of_def)

lemma bytes_of_Nil [simp]: "bytes_of [] = []" and string_of_Nil [simp]: "string_of [] = []"
  by (simp_all add: bytes_of_def string_of_def)

lemma length_bytes_of [simp]: "length (bytes_of s) = length s"
  and length_string_of [simp]: "length (string_of b) = length b"
  by (simp_all add: bytes_of_def string_of_def)

lemma bytes_of_inject [simp]: "bytes_of s = bytes_of t \<longleftrightarrow> s = t"
  by (metis string_of_bytes_of)

lemma bytes_of_eq_Nil [simp]: "bytes_of s = [] \<longleftrightarrow> s = []"
  by (simp add: bytes_of_def)

section \<open>The error monad\<close>

text \<open>
  A Go result pair \<open>(v, err)\<close> is \<open>Inr v\<close> when \<open>err\<close> is nil and \<open>Inl err\<close> otherwise;
  \<open>bindE m f\<close> is the idiom \<open>v, err := m; if err != nil { return err }; f(v)\<close>.
\<close>

definition bindE :: "'e + 'a \<Rightarrow> ('a \<Rightarrow> 'e + 'b) \<Rightarrow> 'e + 'b" where
  "bindE m f = (case m of Inl e \<Rightarrow> Inl e | Inr v \<Rightarrow> f v)"

lemma bindE_simps [simp, run_simps]: "bindE (Inl e) f = Inl e" "bindE (Inr v) f = f v"
  by (simp_all add: bindE_def)

lemma bindE_eq_Inr [simp]: "bindE m f = Inr b \<longleftrightarrow> (\<exists>a. m = Inr a \<and> f a = Inr b)"
  by (simp add: bindE_def split: sum.split)

lemma bindE_eq_Inl:
  "bindE m f = Inl e \<longleftrightarrow> m = Inl e \<or> (\<exists>a. m = Inr a \<and> f a = Inl e)"
  by (auto simp add: bindE_def split: sum.split)

lemma bindE_cong [fundef_cong]:
  assumes "m = m'" and "\<And>v. m' = Inr v \<Longrightarrow> f v = f' v"
  shows "bindE m f = bindE m' f'"
  using assms by (auto simp add: bindE_def split: sum.split)

text \<open>A loop that appends \<open>f x\<close> for every \<open>x\<close> and returns at the first error.\<close>

fun mapE :: "('a \<Rightarrow> 'e + 'b) \<Rightarrow> 'a list \<Rightarrow> 'e + 'b list" where
  "mapE f [] = Inr []"
| "mapE f (x # xs) = bindE (f x) (\<lambda>y. bindE (mapE f xs) (\<lambda>ys. Inr (y # ys)))"

lemma mapE_eq_Inr: "mapE f xs = Inr ys \<longleftrightarrow> list_all2 (\<lambda>x y. f x = Inr y) xs ys"
  by (induction xs arbitrary: ys) (auto simp add: list_all2_Cons1)

lemma mapE_length: "mapE f xs = Inr ys \<Longrightarrow> length ys = length xs"
  by (simp add: mapE_eq_Inr list_all2_lengthD)

lemma mapE_cong [fundef_cong]:
  assumes "xs = ys" and "\<And>x. x \<in> set ys \<Longrightarrow> f x = g x"
  shows "mapE f xs = mapE g ys"
  using assms(2) unfolding assms(1) by (induction ys) simp_all

definition guardE :: "bool \<Rightarrow> 'e \<Rightarrow> 'e + unit" where
  "guardE b e = (if b then Inr () else Inl e)"

lemma guardE_simps [simp, run_simps]: "guardE True e = Inr ()" "guardE False e = Inl e"
  by (simp_all add: guardE_def)

lemma guardE_eq_Inr [simp]: "guardE b e = Inr u \<longleftrightarrow> b"
  by (simp add: guardE_def)

lemma guardE_eq_Inl [simp]: "guardE b e = Inl e' \<longleftrightarrow> \<not> b \<and> e' = e"
  by (auto simp add: guardE_def)

section \<open>Runs that may panic\<close>

text \<open>
  An out-of-range index or slice panics in Go: the function does not return. \<open>Panic\<close> is
  that outcome, and \<open>Ret v\<close> is a normal return. Only the parts of the program that index or
  slice by a computed position have this type; the theorems say when they return.
\<close>

datatype 'a outcome = Panic | Ret 'a

definition bindO :: "'a outcome \<Rightarrow> ('a \<Rightarrow> 'b outcome) \<Rightarrow> 'b outcome" where
  "bindO m f = (case m of Panic \<Rightarrow> Panic | Ret v \<Rightarrow> f v)"

lemma bindO_simps [simp, run_simps]: "bindO Panic f = Panic" "bindO (Ret v) f = f v"
  by (simp_all add: bindO_def)

lemma bindO_eq_Ret [simp]: "bindO m f = Ret b \<longleftrightarrow> (\<exists>a. m = Ret a \<and> f a = Ret b)"
  by (simp add: bindO_def split: outcome.split)

lemma bindO_eq_Panic:
  "bindO m f = Panic \<longleftrightarrow> m = Panic \<or> (\<exists>a. m = Ret a \<and> f a = Panic)"
  by (auto simp add: bindO_def split: outcome.split)

section \<open>Codecs\<close>

text \<open>
  A decoder inverts an encoder on the values \<open>ok\<close> admits; then the encoder is injective on
  them. A prefix codec does so in front of any rest, so encodings can be concatenated and the
  concatenation still determines its parts.
\<close>

locale codec =
  fixes enc :: "'a \<Rightarrow> 'b" and dec :: "'b \<Rightarrow> 'a option" and ok :: "'a \<Rightarrow> bool"
  assumes dec_enc: "ok x \<Longrightarrow> dec (enc x) = Some x"
begin

lemma enc_inject: "ok x \<Longrightarrow> ok y \<Longrightarrow> enc x = enc y \<longleftrightarrow> x = y"
  by (metis dec_enc option.inject)

lemma map_enc_inject:
  "\<forall>x\<in>set xs. ok x \<Longrightarrow> \<forall>y\<in>set ys. ok y \<Longrightarrow> map enc xs = map enc ys \<longleftrightarrow> xs = ys"
  by (rule inj_on_map_eq_map) (auto simp add: inj_on_def enc_inject)

end

locale prefix_codec =
  fixes enc :: "'a \<Rightarrow> 'b list" and dec :: "'b list \<Rightarrow> ('a \<times> 'b list) option"
    and ok :: "'a \<Rightarrow> bool"
  assumes dec_enc_append: "ok x \<Longrightarrow> dec (enc x @ r) = Some (x, r)"
    and enc_not_Nil: "ok x \<Longrightarrow> enc x \<noteq> []"
begin

lemma enc_append_inject:
  "ok x \<Longrightarrow> ok y \<Longrightarrow> enc x @ r = enc y @ s \<longleftrightarrow> x = y \<and> r = s"
  by (metis dec_enc_append option.inject prod.inject)

lemma concat_enc_inject:
  "\<forall>x\<in>set xs. ok x \<Longrightarrow> \<forall>y\<in>set ys. ok y \<Longrightarrow>
   concat (map enc xs) = concat (map enc ys) \<longleftrightarrow> xs = ys"
proof (induction xs arbitrary: ys)
  case Nil
  then show ?case by (cases ys) (auto simp add: enc_not_Nil)
next
  case (Cons x xs)
  then show ?case
    by (cases ys) (auto simp add: enc_not_Nil enc_append_inject)
qed

end

sublocale prefix_codec \<subseteq> codec enc "\<lambda>b. map_option fst (dec b)" ok
  by unfold_locales (metis append_Nil2 dec_enc_append fst_conv option.map(2))

section \<open>Lists\<close>

lemma filter_map_of_cong: "\<forall>x\<in>set xs. P x \<longleftrightarrow> Q x \<Longrightarrow> filter P xs = filter Q xs"
  by (rule filter_cong) auto

end
