(* ===== verification/GoText.thy ===== *)
theory GoText
  imports Prelude
begin

text \<open>
  The parts of Go's \<open>strings\<close>, \<open>strconv\<close>, \<open>math/big\<close> and \<open>unicode/utf8\<close> packages the
  program uses: decimal digits and their value, \<open>ParseUint\<close> and \<open>FormatUint\<close> in base 10
  at 64 bits, \<open>big.Int.SetString\<close> in base 10, \<open>Cut\<close>, \<open>HasSuffix\<close>, and UTF-8 decoding and
  encoding of runes with the replacement rule for malformed bytes.
\<close>

section \<open>Decimal digits\<close>

abbreviation ord_of :: "char \<Rightarrow> nat" where
  "ord_of c \<equiv> of_char c"

abbreviation zero_char :: char where
  "zero_char \<equiv> CHR ''0''"

definition isDigit :: "char \<Rightarrow> bool" where
  "isDigit c \<longleftrightarrow> 48 \<le> ord_of c \<and> ord_of c \<le> 57"

definition digit_char :: "nat \<Rightarrow> char" where
  "digit_char d = char_of (48 + d)"

definition all_digits :: "string \<Rightarrow> bool" where
  "all_digits s \<longleftrightarrow> list_all isDigit s"

definition digits_val :: "string \<Rightarrow> nat" where
  "digits_val s = foldl (\<lambda>n c. 10 * n + (ord_of c - 48)) 0 s"

lemma ord_char_of [simp]: "n < 256 \<Longrightarrow> ord_of (char_of n) = n"
  by (simp add: of_char_of)

lemma char_of_ord [simp]: "char_of (ord_of c) = c"
  by (rule char_of_char)

lemma ord_eq_iff [simp]: "ord_of c = ord_of d \<longleftrightarrow> c = d"
  by (metis char_of_char)

lemma ord_digit_char [simp]: "d < 10 \<Longrightarrow> ord_of (digit_char d) = 48 + d"
  by (simp add: digit_char_def)

lemma isDigit_digit_char [simp]: "d < 10 \<Longrightarrow> isDigit (digit_char d)"
  by (simp add: isDigit_def)

lemma all_digits_simps [simp]:
  "all_digits []" "all_digits (c # s) \<longleftrightarrow> isDigit c \<and> all_digits s"
  "all_digits (s @ t) \<longleftrightarrow> all_digits s \<and> all_digits t"
  "all_digits (replicate n zero_char)"
  by (auto simp add: all_digits_def list_all_iff isDigit_def)

lemma digits_val_Nil [simp]: "digits_val [] = 0"
  by (simp add: digits_val_def)

lemma digits_val_snoc [simp]: "digits_val (s @ [c]) = 10 * digits_val s + (ord_of c - 48)"
  by (simp add: digits_val_def)

lemma digits_val_append: "digits_val (s @ t) = digits_val s * 10 ^ length t + digits_val t"
proof (induction t rule: rev_induct)
  case Nil
  then show ?case by simp
next
  case (snoc c t)
  have "digits_val (s @ t @ [c]) = 10 * digits_val (s @ t) + (ord_of c - 48)"
    using digits_val_snoc [of "s @ t" c] by simp
  with snoc show ?case by (simp add: algebra_simps)
qed

lemma digits_val_Cons: "digits_val (c # s) = (ord_of c - 48) * 10 ^ length s + digits_val s"
  using digits_val_append [of "[c]" s] digits_val_snoc [of "[]" c] by simp

lemma digits_val_zeros [simp]: "digits_val (replicate n zero_char) = 0"
  by (induction n) (simp_all add: digits_val_Cons)

lemma digits_val_pad [simp]:
  "digits_val (s @ replicate n zero_char) = digits_val s * 10 ^ n"
  by (simp add: digits_val_append)

lemma digits_val_strip [simp]: "digits_val (dropWhile (\<lambda>c. c = zero_char) s) = digits_val s"
  by (induction s) (auto simp add: digits_val_Cons)

lemma digits_val_less: "all_digits s \<Longrightarrow> digits_val s < 10 ^ length s"
proof (induction s)
  case Nil
  then show ?case by simp
next
  case (Cons c s)
  then have "ord_of c - 48 \<le> 9" and IH: "digits_val s < 10 ^ length s"
    by (auto simp add: isDigit_def)
  then have "(ord_of c - 48) * 10 ^ length s \<le> 9 * 10 ^ length s"
    by (intro mult_right_mono) auto
  with IH have "(ord_of c - 48) * 10 ^ length s + digits_val s < 10 * 10 ^ length s"
    by linarith
  then show ?case by (simp add: digits_val_Cons)
qed

lemma isDigit_zero_iff: "isDigit c \<Longrightarrow> ord_of c - 48 = 0 \<longleftrightarrow> c = zero_char"
proof -
  assume "isDigit c"
  then have "ord_of c - 48 = 0 \<longleftrightarrow> ord_of c = ord_of zero_char"
    by (auto simp add: isDigit_def)
  then show ?thesis by (simp only: ord_eq_iff)
qed

lemma isDigit_ord_inj:
  "isDigit c \<Longrightarrow> isDigit d \<Longrightarrow> ord_of c - 48 = ord_of d - 48 \<Longrightarrow> c = d"
proof -
  assume "isDigit c" "isDigit d" "ord_of c - 48 = ord_of d - 48"
  then have "ord_of c = ord_of d" unfolding isDigit_def by linarith
  then show ?thesis by simp
qed

text \<open>Digit strings of one length are determined by their value.\<close>

lemma digits_val_inject_length:
  assumes "length s = length t" "all_digits s" "all_digits t" "digits_val s = digits_val t"
  shows "s = t"
  using assms
proof (induction s t rule: list_induct2)
  case Nil
  then show ?case by simp
next
  case (Cons c s d t)
  let ?p = "10 ^ length s :: nat"
  have less: "digits_val s < ?p" "digits_val t < ?p"
    using Cons digits_val_less [of s] digits_val_less [of t] by auto
  have eq: "(ord_of c - 48) * ?p + digits_val s = (ord_of d - 48) * ?p + digits_val t"
    using Cons by (simp add: digits_val_Cons)
  have "((ord_of c - 48) * ?p + digits_val s) div ?p = ord_of c - 48"
    and "((ord_of d - 48) * ?p + digits_val t) div ?p = ord_of d - 48"
    using less by simp_all
  with eq have "ord_of c - 48 = ord_of d - 48" by simp
  with eq Cons show ?case by (auto intro: isDigit_ord_inj)
qed

definition no_leading_zero :: "string \<Rightarrow> bool" where
  "no_leading_zero s \<longleftrightarrow> s = [zero_char] \<or> (s \<noteq> [] \<and> hd s \<noteq> zero_char)"

lemma digits_val_ge:
  assumes "all_digits s" "s \<noteq> []" "hd s \<noteq> zero_char"
  shows "10 ^ (length s - 1) \<le> digits_val s"
proof -
  obtain c t where s: "s = c # t" using assms(2) by (cases s) auto
  with assms have "1 \<le> ord_of c - 48" using isDigit_zero_iff [of c] by auto
  then have "1 * 10 ^ length t \<le> (ord_of c - 48) * 10 ^ length t"
    by (intro mult_right_mono) auto
  then have "10 ^ length t \<le> (ord_of c - 48) * 10 ^ length t + digits_val t"
    by linarith
  then show ?thesis by (simp add: s digits_val_Cons)
qed

lemma digits_val_zero_iff:
  "all_digits s \<Longrightarrow> no_leading_zero s \<Longrightarrow> digits_val s = 0 \<longleftrightarrow> s = [zero_char]"
  using digits_val_ge [of s] by (auto simp add: no_leading_zero_def digits_val_Cons)

text \<open>A canonical digit string is determined by its value alone.\<close>

lemma digits_val_inject:
  assumes s: "all_digits s" "no_leading_zero s" and t: "all_digits t" "no_leading_zero t"
    and eq: "digits_val s = digits_val t"
  shows "s = t"
proof (cases "digits_val s = 0")
  case True
  with s t eq show ?thesis by (metis digits_val_zero_iff)
next
  case False
  with eq have "digits_val t \<noteq> 0" by simp
  with False s t have hd: "s \<noteq> []" "hd s \<noteq> zero_char" "t \<noteq> []" "hd t \<noteq> zero_char"
    by (auto simp add: no_leading_zero_def digits_val_Cons)
  have "\<not> length s < length t"
  proof
    assume "length s < length t"
    then have "(10::nat) ^ length s \<le> 10 ^ (length t - 1)" by simp
    with digits_val_less [OF s(1)] digits_val_ge [OF t(1) hd(3,4)] eq show False by simp
  qed
  moreover have "\<not> length t < length s"
  proof
    assume "length t < length s"
    then have "(10::nat) ^ length t \<le> 10 ^ (length s - 1)" by simp
    with digits_val_less [OF t(1)] digits_val_ge [OF s(1) hd(1,2)] eq show False by simp
  qed
  ultimately show ?thesis using s t eq by (intro digits_val_inject_length) auto
qed

section \<open>Numbers to text and back\<close>

text \<open>\<open>strconv.FormatUint(v, 10)\<close> and \<open>strconv.ParseUint(s, 10, 64)\<close>.\<close>

fun format_nat :: "nat \<Rightarrow> string" where
  "format_nat n = (if n < 10 then [digit_char n]
                   else format_nat (n div 10) @ [digit_char (n mod 10)])"

declare format_nat.simps [simp del]

definition FormatUint :: "uint64 \<Rightarrow> string" where
  "FormatUint v = format_nat (unat v)"

definition ParseUint :: "string \<Rightarrow> uint64 option" where
  "ParseUint s =
     (if s = [] \<or> \<not> all_digits s then None
      else if 2 ^ 64 \<le> digits_val s then None
      else Some (of_nat (digits_val s)))"

lemma format_nat_val [simp]: "digits_val (format_nat n) = n"
proof (induction n rule: format_nat.induct)
  case (1 n)
  then show ?case
    by (subst format_nat.simps) (auto simp add: digits_val_Cons)
qed

lemma format_nat_digits [simp]: "all_digits (format_nat n)"
  by (induction n rule: format_nat.induct) (subst format_nat.simps, simp)

lemma format_nat_not_Nil [simp]: "format_nat n \<noteq> []"
  by (subst format_nat.simps) simp

lemma format_nat_no_leading_zero [simp]: "no_leading_zero (format_nat n)"
proof (induction n rule: format_nat.induct)
  case (1 n)
  show ?case
  proof (cases "n < 10")
    case True
    then show ?thesis
      using isDigit_zero_iff [of "digit_char n"]
      by (subst format_nat.simps) (auto simp add: no_leading_zero_def)
  next
    case False
    then have "no_leading_zero (format_nat (n div 10))" using 1 by simp
    moreover have "format_nat (n div 10) \<noteq> [zero_char]"
    proof
      assume eq: "format_nat (n div 10) = [zero_char]"
      have "n div 10 = digits_val [zero_char]" by (simp flip: eq)
      with False show False by (simp add: digits_val_Cons)
    qed
    ultimately show ?thesis
      using False by (subst format_nat.simps) (auto simp add: no_leading_zero_def)
  qed
qed

interpretation uint_text: codec FormatUint ParseUint "\<lambda>_. True"
proof unfold_locales
  fix v :: uint64
  have "unat v < 2 ^ 64" using unsigned_less [of v, where ?'a = nat] by simp
  then show "ParseUint (FormatUint v) = Some v"
    by (simp add: ParseUint_def FormatUint_def)
qed

lemma ParseUint_Some:
  "ParseUint s = Some v \<longleftrightarrow> s \<noteq> [] \<and> all_digits s \<and> digits_val s < 2 ^ 64 \<and> unat v = digits_val s"
proof (cases "s \<noteq> [] \<and> all_digits s \<and> digits_val s < 2 ^ 64")
  case True
  then have "unat (of_nat (digits_val s) :: uint64) = digits_val s"
    by (simp add: unat_of_nat)
  with True show ?thesis
    by (auto simp add: ParseUint_def word_unat_eq_iff)
next
  case False
  then show ?thesis by (auto simp add: ParseUint_def)
qed

text \<open>
  \<open>new(big.Int).SetString(s, 10)\<close>: an optional sign, then at least one digit and nothing
  else (an underscore is a digit separator in base 0 only).
\<close>

fun big_SetString :: "string \<Rightarrow> int option" where
  "big_SetString [] = None"
| "big_SetString (c # s) =
     (let (neg, ds) = (if c = CHR ''-'' then (True, s)
                       else if c = CHR ''+'' then (False, s) else (False, c # s))
      in if ds = [] \<or> \<not> all_digits ds then None
         else Some (if neg then - int (digits_val ds) else int (digits_val ds)))"

lemma not_isDigit_sign [simp]: "\<not> isDigit CHR ''-''" "\<not> isDigit CHR ''+''" "\<not> isDigit CHR ''.''"
  by (simp_all add: isDigit_def)

lemma big_SetString_digits:
  "s \<noteq> [] \<Longrightarrow> all_digits s \<Longrightarrow> big_SetString s = Some (int (digits_val s))"
  by (cases s) auto

section \<open>Strings\<close>

text \<open>\<open>strings.Cut(s, sep)\<close> for a one-byte separator: the text before and after its first
  occurrence; the found flag is not used by the program.\<close>

definition Cut :: "string \<Rightarrow> char \<Rightarrow> string \<times> string" where
  "Cut s sep = (takeWhile (\<lambda>c. c \<noteq> sep) s,
                case dropWhile (\<lambda>c. c \<noteq> sep) s of [] \<Rightarrow> [] | _ # t \<Rightarrow> t)"

definition HasSuffix :: "string \<Rightarrow> string \<Rightarrow> bool" where
  "HasSuffix s t \<longleftrightarrow> length t \<le> length s \<and> drop (length s - length t) s = t"

lemma HasSuffix_iff: "HasSuffix s t \<longleftrightarrow> (\<exists>u. s = u @ t)"
proof
  assume "HasSuffix s t"
  then show "\<exists>u. s = u @ t"
    by (metis HasSuffix_def append_take_drop_id)
qed (auto simp add: HasSuffix_def)

lemma Cut_append:
  "sep \<notin> set a \<Longrightarrow> Cut (a @ sep # b) sep = (a, b)"
  by (induction a) (auto simp add: Cut_def)

lemma Cut_none: "sep \<notin> set a \<Longrightarrow> Cut a sep = (a, [])"
  by (induction a) (auto simp add: Cut_def)

end
