(* ===== verification/GoUtf8.thy ===== *)
theory GoUtf8
  imports GoText
begin

text \<open>
  \<open>unicode/utf8\<close> and \<open>unicode.IsControl\<close>: decoding one rune from the front of a string (a
  malformed byte decodes to U+FFFD with width 1), encoding a rune, validity, and the runes a
  \<open>range\<close> loop over a string visits. A string is valid exactly when it is the
  concatenation of the encodings of Unicode scalar values (\<open>utf8_valid_iff\<close>).
\<close>

section \<open>Runes\<close>

definition RuneError :: nat where
  "RuneError = 65533"

definition scalar :: "nat \<Rightarrow> bool" where
  "scalar r \<longleftrightarrow> r < 55296 \<or> 57344 \<le> r \<and> r < 1114112"

definition in_range :: "nat \<Rightarrow> nat \<Rightarrow> char \<Rightarrow> bool" where
  "in_range lo hi c \<longleftrightarrow> lo \<le> ord_of c \<and> ord_of c \<le> hi"

definition cont_bits :: "char \<Rightarrow> nat" where
  "cont_bits c = ord_of c - 128"

text \<open>The first byte fixes the length, and for E0, ED, F0 and F4 also the range of the second.\<close>

fun decode_rune :: "string \<Rightarrow> nat \<times> nat" where
  "decode_rune [] = (RuneError, 0)"
| "decode_rune (b0 # s) =
     (let c0 = ord_of b0 in
      if c0 < 128 then (c0, 1)
      else if c0 < 194 then (RuneError, 1)
      else if c0 < 224 then
        (case s of b1 # _ \<Rightarrow>
           if in_range 128 191 b1 then ((c0 - 192) * 64 + cont_bits b1, 2) else (RuneError, 1)
         | _ \<Rightarrow> (RuneError, 1))
      else if c0 < 240 then
        (case s of b1 # b2 # _ \<Rightarrow>
           if in_range (if c0 = 224 then 160 else 128) (if c0 = 237 then 159 else 191) b1
              \<and> in_range 128 191 b2
           then ((c0 - 224) * 4096 + cont_bits b1 * 64 + cont_bits b2, 3) else (RuneError, 1)
         | _ \<Rightarrow> (RuneError, 1))
      else if c0 < 245 then
        (case s of b1 # b2 # b3 # _ \<Rightarrow>
           if in_range (if c0 = 240 then 144 else 128) (if c0 = 244 then 143 else 191) b1
              \<and> in_range 128 191 b2 \<and> in_range 128 191 b3
           then ((c0 - 240) * 262144 + cont_bits b1 * 4096 + cont_bits b2 * 64 + cont_bits b3, 4)
           else (RuneError, 1)
         | _ \<Rightarrow> (RuneError, 1))
      else (RuneError, 1))"

text \<open>\<open>utf8.AppendRune\<close>: surrogates and values out of range are encoded as U+FFFD.\<close>

definition encode_scalar :: "nat \<Rightarrow> string" where
  "encode_scalar r =
     (if r < 128 then [char_of r]
      else if r < 2048 then [char_of (192 + r div 64), char_of (128 + r mod 64)]
      else if r < 65536 then
        [char_of (224 + r div 4096), char_of (128 + r div 64 mod 64), char_of (128 + r mod 64)]
      else [char_of (240 + r div 262144), char_of (128 + r div 4096 mod 64),
            char_of (128 + r div 64 mod 64), char_of (128 + r mod 64)])"

definition encode_rune :: "nat \<Rightarrow> string" where
  "encode_rune r = encode_scalar (if scalar r then r else RuneError)"

lemma scalar_RuneError [simp]: "scalar RuneError"
  by (simp add: scalar_def RuneError_def)

lemma encode_scalar_not_Nil [simp]: "encode_scalar r \<noteq> []"
  by (simp add: encode_scalar_def)

lemma decode_rune_width:
  "s \<noteq> [] \<Longrightarrow> decode_rune s = (r, n) \<Longrightarrow> 1 \<le> n \<and> n \<le> length s"
  by (cases s) (auto simp add: Let_def split: if_splits list.splits)

lemma decode_rune_drop:
  "(r, n) = decode_rune s \<Longrightarrow> s \<noteq> [] \<Longrightarrow> length s - n < length s"
  using decode_rune_width [of s r n] by simp

lemma decode_rune_width_snd: "s \<noteq> [] \<Longrightarrow> 0 < snd (decode_rune s)"
  using decode_rune_width [of s] by (cases "decode_rune s") auto

lemma decode_rune_ascii: "ord_of c < 128 \<Longrightarrow> decode_rune (c # s) = (ord_of c, 1)"
  by simp

text \<open>The base-64 digits of a code point.\<close>

lemma base64_split2: "(r::nat) = r div 4096 * 4096 + r div 64 mod 64 * 64 + r mod 64"
proof -
  have "r div 4096 = r div 64 div 64" by (simp flip: div_mult2_eq)
  moreover have "r = r div 64 * 64 + r mod 64" by simp
  moreover have "r div 64 = r div 64 div 64 * 64 + r div 64 mod 64" by simp
  ultimately show ?thesis by linarith
qed

lemma base64_split3:
  "(r::nat) = r div 262144 * 262144 + r div 4096 mod 64 * 4096 + r div 64 mod 64 * 64 + r mod 64"
proof -
  have "r div 262144 = r div 4096 div 64" by (simp flip: div_mult2_eq)
  moreover have "r div 4096 = r div 4096 div 64 * 64 + r div 4096 mod 64" by simp
  ultimately show ?thesis using base64_split2 [of r] by linarith
qed

lemma base64_join2:
  assumes "b < 64" "c < (64::nat)" and r: "r = a * 4096 + b * 64 + c"
  shows "r div 4096 = a" "r div 64 mod 64 = b" "r mod 64 = c"
proof -
  have r': "r = c + (b + a * 64) * 64" using r by simp
  have q: "r div 64 = b + a * 64" unfolding r' using assms(2) by simp
  show "r mod 64 = c" unfolding r' using assms(2) by (metis mod_mult_self1 mod_less)
  show "r div 64 mod 64 = b" unfolding q using assms(1) by simp
  have "r div 4096 = r div 64 div 64" by (simp flip: div_mult2_eq)
  then show "r div 4096 = a" unfolding q using assms(1) by simp
qed

lemma base64_join3:
  assumes "b < 64" "c < 64" "d < (64::nat)" and r: "r = a * 262144 + b * 4096 + c * 64 + d"
  shows "r div 262144 = a" "r div 4096 mod 64 = b" "r div 64 mod 64 = c" "r mod 64 = d"
proof -
  have r': "r = (a * 64 + b) * 4096 + c * 64 + d" using r by simp
  note j = base64_join2 [OF assms(2,3) r']
  show "r div 64 mod 64 = c" "r mod 64 = d" by (rule j)+
  show "r div 4096 mod 64 = b" unfolding j(1) using assms(1) by simp
  have "r div 262144 = r div 4096 div 64" by (simp flip: div_mult2_eq)
  then show "r div 262144 = a" unfolding j(1) using assms(1) by simp
qed

text \<open>Decoding inverts encoding in front of any rest.\<close>

lemma decode_encode_scalar:
  assumes "scalar r"
  shows "decode_rune (encode_scalar r @ t) = (r, length (encode_scalar r))"
proof -
  consider (one) "r < 128" | (two) "128 \<le> r" "r < 2048" | (three) "2048 \<le> r" "r < 65536"
    | (four) "65536 \<le> r" by linarith
  then show ?thesis
  proof cases
    case one
    then show ?thesis by (simp add: encode_scalar_def)
  next
    case two
    then have "2 \<le> r div 64" "r div 64 < 32" by auto
    with two show ?thesis by (simp add: encode_scalar_def in_range_def cont_bits_def)
  next
    case three
    define a b c where abc: "a = r div 4096" "b = r div 64 mod 64" "c = r mod 64"
    have r: "r = a * 4096 + b * 64 + c"
      unfolding abc by (rule base64_split2)
    have lt: "a < 16" "b < 64" "c < 64"
      using three by (auto simp add: abc)
    have "a = 0 \<longrightarrow> 32 \<le> b" and "a = 13 \<longrightarrow> b < 32"
      using three lt assms by (auto simp add: r scalar_def)
    moreover have "encode_scalar r = [char_of (224 + a), char_of (128 + b), char_of (128 + c)]"
      using three by (simp add: encode_scalar_def abc)
    ultimately show ?thesis using lt r
      by (auto simp add: in_range_def cont_bits_def Let_def)
  next
    case four
    define a b c d where abcd: "a = r div 262144" "b = r div 4096 mod 64" "c = r div 64 mod 64"
      "d = r mod 64"
    have r: "r = a * 262144 + b * 4096 + c * 64 + d"
      unfolding abcd by (rule base64_split3)
    have lt: "b < 64" "c < 64" "d < 64" and "a < 5"
      using assms four by (auto simp add: abcd scalar_def)
    moreover have "a = 0 \<longrightarrow> 16 \<le> b" and "a = 4 \<longrightarrow> b < 16"
      using four lt assms by (auto simp add: r scalar_def)
    moreover have "encode_scalar r =
        [char_of (240 + a), char_of (128 + b), char_of (128 + c), char_of (128 + d)]"
      using four by (simp add: encode_scalar_def abcd)
    ultimately show ?thesis using lt r
      by (auto simp add: in_range_def cont_bits_def Let_def)
  qed
qed

text \<open>A rune that is not the error of width 1 is a scalar value, and its bytes are its encoding.\<close>

lemma decode_rune_encoded:
  assumes "s \<noteq> []" "decode_rune s = (r, n)" "\<not> (r = RuneError \<and> n = 1)"
  shows "scalar r \<and> take n s = encode_scalar r \<and> n = length (encode_scalar r)"
proof -
  obtain b0 t where s: "s = b0 # t" using assms(1) by (cases s) auto
  have b0: "b0 = char_of (ord_of b0)" by simp
  consider (one) "ord_of b0 < 128" | (two) "194 \<le> ord_of b0" "ord_of b0 < 224"
    | (three) "224 \<le> ord_of b0" "ord_of b0 < 240" | (four) "240 \<le> ord_of b0" "ord_of b0 < 245"
    using assms by (fastforce simp add: s Let_def split: if_splits)
  then show ?thesis
  proof cases
    case one
    then show ?thesis using assms by (auto simp add: s scalar_def encode_scalar_def)
  next
    case two
    with assms obtain b1 t' where t: "t = b1 # t'" "in_range 128 191 b1"
      and r: "r = (ord_of b0 - 192) * 64 + cont_bits b1" "n = 2"
      by (auto simp add: s Let_def split: if_splits list.splits)
    then have c: "cont_bits b1 < 64" "b1 = char_of (128 + cont_bits b1)"
      by (auto simp add: in_range_def cont_bits_def)
    define a where "a = ord_of b0 - 192"
    with two have a: "b0 = char_of (192 + a)" "2 \<le> a" "a < 32" by auto
    show ?thesis using c a r t
      by (simp add: s scalar_def encode_scalar_def flip: a_def)
  next
    case three
    define a where "a = ord_of b0 - 224"
    with three have a: "b0 = char_of (224 + a)" "a < 16" "ord_of b0 = 224 + a" by auto
    with three assms obtain b1 b2 t' where t: "t = b1 # b2 # t'"
      and rng: "in_range (if a = 0 then 160 else 128) (if a = 13 then 159 else 191) b1"
        "in_range 128 191 b2"
      and r: "r = a * 4096 + cont_bits b1 * 64 + cont_bits b2" "n = 3"
      by (auto simp add: s Let_def split: if_splits list.splits)
    then have c: "cont_bits b1 < 64" "b1 = char_of (128 + cont_bits b1)"
      "cont_bits b2 < 64" "b2 = char_of (128 + cont_bits b2)"
      and e: "a = 0 \<longrightarrow> 32 \<le> cont_bits b1" "a = 13 \<longrightarrow> cont_bits b1 < 32"
      by (auto simp add: in_range_def cont_bits_def split: if_splits)
    have d: "r div 4096 = a" "r div 64 mod 64 = cont_bits b1" "r mod 64 = cont_bits b2"
      by (rule base64_join2 [OF c(1,3) r(1)])+
    have "2048 \<le> r" "r < 65536" using r c e a(2) by auto
    moreover have "scalar r"
      using r c e a(2) by (cases "a = 13"; cases "a < 13") (auto simp add: scalar_def)
    ultimately have "2048 \<le> r" "r < 65536" "scalar r" by simp_all
    with d c a(1) t r(2) show ?thesis
      by (simp add: s encode_scalar_def)
  next
    case four
    define a where "a = ord_of b0 - 240"
    with four have a: "b0 = char_of (240 + a)" "a < 5" "ord_of b0 = 240 + a" by auto
    with four assms obtain b1 b2 b3 t' where t: "t = b1 # b2 # b3 # t'"
      and rng: "in_range (if a = 0 then 144 else 128) (if a = 4 then 143 else 191) b1"
        "in_range 128 191 b2" "in_range 128 191 b3"
      and r: "r = a * 262144 + cont_bits b1 * 4096 + cont_bits b2 * 64 + cont_bits b3" "n = 4"
      by (auto simp add: s Let_def split: if_splits list.splits)
    then have c: "cont_bits b1 < 64" "b1 = char_of (128 + cont_bits b1)"
      "cont_bits b2 < 64" "b2 = char_of (128 + cont_bits b2)"
      "cont_bits b3 < 64" "b3 = char_of (128 + cont_bits b3)"
      and e: "a = 0 \<longrightarrow> 16 \<le> cont_bits b1" "a = 4 \<longrightarrow> cont_bits b1 < 16"
      by (auto simp add: in_range_def cont_bits_def split: if_splits)
    have d: "r div 262144 = a" "r div 4096 mod 64 = cont_bits b1"
      "r div 64 mod 64 = cont_bits b2" "r mod 64 = cont_bits b3"
      by (rule base64_join3 [OF c(1,3,5) r(1)])+
    have "65536 \<le> r" "scalar r"
      using r c e a(2) by (auto simp add: scalar_def)
    with d c a(1) t r(2) show ?thesis
      by (simp add: s encode_scalar_def)
  qed
qed

section \<open>Valid strings\<close>

text \<open>\<open>utf8.ValidString\<close>, and the runes visited by \<open>for _, r := range s\<close>.\<close>

function utf8_valid :: "string \<Rightarrow> bool" where
  "utf8_valid s =
     (if s = [] then True else case decode_rune s of (r, n) \<Rightarrow>
        if r = RuneError \<and> n = 1 then False else utf8_valid (drop n s))"
  by pat_completeness auto
termination
  by (relation "measure length") (auto dest: decode_rune_drop)

function runes :: "string \<Rightarrow> nat list" where
  "runes s = (if s = [] then [] else case decode_rune s of (r, n) \<Rightarrow> r # runes (drop n s))"
  by pat_completeness auto
termination
  by (relation "measure length") (auto dest: decode_rune_drop)

declare utf8_valid.simps [simp del] runes.simps [simp del]

definition IsControl :: "nat \<Rightarrow> bool" where
  "IsControl r \<longleftrightarrow> r < 32 \<or> 127 \<le> r \<and> r < 160"

definition utf8_text :: "nat list \<Rightarrow> string" where
  "utf8_text rs = concat (map encode_scalar rs)"

lemma utf8_text_simps [simp]:
  "utf8_text [] = []" "utf8_text (r # rs) = encode_scalar r @ utf8_text rs"
  by (simp_all add: utf8_text_def)

lemma utf8_valid_Nil [simp]: "utf8_valid []" and runes_Nil [simp]: "runes [] = []"
  by (simp_all add: utf8_valid.simps [of "[]"] runes.simps [of "[]"])

lemma encode_scalar_not_error:
  "scalar r \<Longrightarrow> \<not> (r = RuneError \<and> length (encode_scalar r) = Suc 0)"
  by (auto simp add: encode_scalar_def RuneError_def)

lemma utf8_valid_scalar [simp]:
  "scalar r \<Longrightarrow> utf8_valid (encode_scalar r @ s) \<longleftrightarrow> utf8_valid s"
  using encode_scalar_not_error [of r]
  by (subst utf8_valid.simps) (auto simp add: decode_encode_scalar)

lemma runes_scalar [simp]:
  "scalar r \<Longrightarrow> runes (encode_scalar r @ s) = r # runes s"
  by (subst runes.simps) (simp add: decode_encode_scalar)

lemma utf8_valid_text: "\<forall>r\<in>set rs. scalar r \<Longrightarrow> utf8_valid (utf8_text rs)"
  by (induction rs) auto

lemma runes_utf8_text: "\<forall>r\<in>set rs. scalar r \<Longrightarrow> runes (utf8_text rs) = rs"
  by (induction rs) auto

lemma utf8_valid_runes:
  "utf8_valid s \<Longrightarrow> (\<forall>r\<in>set (runes s). scalar r) \<and> utf8_text (runes s) = s"
proof (induction s rule: runes.induct)
  case (1 s)
  show ?case
  proof (cases "s = []")
    case True
    then show ?thesis by simp
  next
    case False
    obtain r n where d: "decode_rune s = (r, n)" by (cases "decode_rune s")
    have v: "\<not> (r = RuneError \<and> n = 1)" "utf8_valid (drop n s)"
      using "1.prems" False d by (auto simp add: utf8_valid.simps [of s] split: if_splits)
    have "scalar r" and "take n s = encode_scalar r"
      using decode_rune_encoded [OF False d v(1)] by auto
    moreover have "runes s = r # runes (drop n s)"
      using False d by (simp add: runes.simps [of s])
    moreover have "(\<forall>r\<in>set (runes (drop n s)). scalar r) \<and> utf8_text (runes (drop n s)) = drop n s"
      using "1.IH" [OF False d [symmetric] v(2)] .
    ultimately show ?thesis
      by (metis append_take_drop_id set_ConsD utf8_text_simps(2))
  qed
qed

lemma utf8_valid_iff: "utf8_valid s \<longleftrightarrow> (\<exists>rs. (\<forall>r\<in>set rs. scalar r) \<and> s = utf8_text rs)"
  using utf8_valid_runes [of s] utf8_valid_text by metis

lemma utf8_valid_append: "utf8_valid s \<Longrightarrow> utf8_valid t \<Longrightarrow> utf8_valid (s @ t)"
  unfolding utf8_valid_iff
  by (metis Un_iff concat_append map_append set_append utf8_text_def)

lemma utf8_valid_encode_rune [simp]: "utf8_valid (encode_rune r)"
  using utf8_valid_scalar [of "if scalar r then r else RuneError" "[]"]
  by (simp add: encode_rune_def)

lemma utf8_valid_ascii: "\<forall>c\<in>set s. ord_of c < 128 \<Longrightarrow> utf8_valid s"
proof (induction s)
  case Nil
  then show ?case by simp
next
  case (Cons c s)
  then show ?case
    by (simp add: utf8_valid.simps [of "c # s"] RuneError_def)
qed

text \<open>
  Induction over the steps of decoding: an ASCII character, the encoding of a longer code point,
  or a malformed byte.
\<close>

lemma utf8_induct [case_names Nil ascii rune bad]:
  assumes "P []"
    and "\<And>c s. ord_of c < 128 \<Longrightarrow> P s \<Longrightarrow> P (c # s)"
    and "\<And>r s. scalar r \<Longrightarrow> 128 \<le> r \<Longrightarrow> P s \<Longrightarrow> P (encode_scalar r @ s)"
    and "\<And>c s. 128 \<le> ord_of c \<Longrightarrow> decode_rune (c # s) = (RuneError, 1) \<Longrightarrow> P s \<Longrightarrow> P (c # s)"
  shows "P s"
proof (induction s rule: measure_induct_rule [where f = length])
  case (less s)
  show ?case
  proof (cases s)
    case Nil
    with assms(1) show ?thesis by simp
  next
    case (Cons c t)
    obtain r n where d: "decode_rune s = (r, n)" by (cases "decode_rune s")
    show ?thesis
    proof (cases "ord_of c < 128 \<or> r = RuneError \<and> n = 1")
      case True
      then show ?thesis using assms(2,4) less Cons d by (metis length_Cons lessI not_le)
    next
      case False
      have s: "s \<noteq> []" using Cons by simp
      from False have e: "scalar r" "take n s = encode_scalar r" "n = length (encode_scalar r)"
        using decode_rune_encoded [OF s d] by auto
      have "s = encode_scalar r @ drop n s" using e(2) by (metis append_take_drop_id)
      moreover have "128 \<le> r"
      proof (rule ccontr)
        assume "\<not> 128 \<le> r"
        then have "take n s = [char_of r]" "r < 256" using e by (simp_all add: encode_scalar_def)
        then have "c = char_of r" using Cons by (cases n) auto
        with \<open>\<not> 128 \<le> r\<close> False show False by simp
      qed
      moreover have "P (drop n s)"
        using decode_rune_width [OF s d] s by (intro less) simp
      ultimately show ?thesis using assms(3) e(1) by metis
    qed
  qed
qed

text \<open>The first byte of the encoding of a longer code point is not ASCII.\<close>

lemma encode_scalar_hd: "scalar r \<Longrightarrow> 128 \<le> r \<Longrightarrow> \<exists>c t. encode_scalar r = c # t \<and> 128 \<le> ord_of c"
  by (auto simp add: encode_scalar_def scalar_def)

end
