(* ===== verification/GoBase64.thy ===== *)
theory GoBase64
  imports GoUtf8
begin

text \<open>
  \<open>encoding/base64\<close>, the standard alphabet with padding: \<open>EncodeToString\<close> and
  \<open>DecodeString\<close>. The decoder skips carriage returns and newlines anywhere, reads quanta of
  four characters, accepts padding only in the last one and does not check that the unused low
  bits are zero (\<open>StdEncoding\<close> is not strict). Decoding inverts encoding.
\<close>

section \<open>The alphabet\<close>

definition b64_char :: "nat \<Rightarrow> char" where
  "b64_char n =
     (if n < 26 then char_of (65 + n) else if n < 52 then char_of (71 + n)
      else if n < 62 then char_of (n - 4) else if n = 62 then CHR ''+'' else CHR ''/'')"

definition b64_val :: "char \<Rightarrow> nat option" where
  "b64_val c =
     (let n = ord_of c in
      if 65 \<le> n \<and> n \<le> 90 then Some (n - 65) else if 97 \<le> n \<and> n \<le> 122 then Some (n - 71)
      else if 48 \<le> n \<and> n \<le> 57 then Some (n + 4)
      else if c = CHR ''+'' then Some 62 else if c = CHR ''/'' then Some 63 else None)"

lemma b64_val_char [simp]: "n < 64 \<Longrightarrow> b64_val (b64_char n) = Some n"
  by (auto simp add: b64_val_def b64_char_def Let_def)

lemma b64_val_less: "b64_val c = Some n \<Longrightarrow> n < 64"
  by (auto simp add: b64_val_def Let_def split: if_splits)

lemma b64_val_other [simp]:
  "b64_val CHR ''='' = None" "b64_val CHR 0x0A = None" "b64_val CHR 0x0D = None"
  by (simp_all add: b64_val_def)

lemma b64_char_neq [simp]:
  "n < 64 \<Longrightarrow> b64_char n \<noteq> CHR ''=''" "n < 64 \<Longrightarrow> b64_char n \<noteq> CHR 0x0A"
  "n < 64 \<Longrightarrow> b64_char n \<noteq> CHR 0x0D"
  by (metis b64_val_char b64_val_other option.distinct(1))+

section \<open>Encoding\<close>

definition triple_val :: "byte \<Rightarrow> byte \<Rightarrow> byte \<Rightarrow> nat" where
  "triple_val a b c = unat a * 65536 + unat b * 256 + unat c"

fun EncodeToString :: "bytes \<Rightarrow> string" where
  "EncodeToString [] = []"
| "EncodeToString [a] =
     (let v = triple_val a 0 0 in
      [b64_char (v div 262144), b64_char (v div 4096 mod 64), CHR ''='', CHR ''=''])"
| "EncodeToString [a, b] =
     (let v = triple_val a b 0 in
      [b64_char (v div 262144), b64_char (v div 4096 mod 64), b64_char (v div 64 mod 64),
       CHR ''=''])"
| "EncodeToString (a # b # c # s) =
     (let v = triple_val a b c in
      [b64_char (v div 262144), b64_char (v div 4096 mod 64), b64_char (v div 64 mod 64),
       b64_char (v mod 64)]) @ EncodeToString s"

section \<open>Decoding\<close>

definition quantum_bytes :: "nat \<Rightarrow> nat \<Rightarrow> nat \<Rightarrow> nat \<Rightarrow> bytes" where
  "quantum_bytes x y z w =
     (let v = x * 262144 + y * 4096 + z * 64 + w
      in [of_nat (v div 65536), of_nat (v div 256), of_nat v])"

fun b64_quanta :: "string \<Rightarrow> bytes option" where
  "b64_quanta [] = Some []"
| "b64_quanta (a # b # c # d # s) =
     (case (b64_val a, b64_val b) of
        (Some x, Some y) \<Rightarrow>
          (if c = CHR ''='' then
             (if d = CHR ''='' \<and> s = [] then Some (take 1 (quantum_bytes x y 0 0)) else None)
           else case b64_val c of None \<Rightarrow> None | Some z \<Rightarrow>
             (if d = CHR ''='' then
                (if s = [] then Some (take 2 (quantum_bytes x y z 0)) else None)
              else case b64_val d of None \<Rightarrow> None | Some w \<Rightarrow>
                map_option (\<lambda>t. quantum_bytes x y z w @ t) (b64_quanta s)))
      | _ \<Rightarrow> None)"
| "b64_quanta _ = None"

definition is_newline :: "char \<Rightarrow> bool" where
  "is_newline c \<longleftrightarrow> c = CHR 0x0A \<or> c = CHR 0x0D"

definition DecodeString :: "string \<Rightarrow> bytes option" where
  "DecodeString s = b64_quanta (filter (\<lambda>c. \<not> is_newline c) s)"

lemma triple_val_less: "triple_val a b c < 16777216"
  using unsigned_less [of a, where ?'a = nat] unsigned_less [of b, where ?'a = nat]
    unsigned_less [of c, where ?'a = nat]
  by (simp add: triple_val_def)

lemma triple_val_div: "triple_val a b c div 262144 < 64"
  using triple_val_less [of a b c] by (intro less_mult_imp_div_less) simp

text \<open>The four six-bit digits of three bytes give the bytes back.\<close>

lemma quantum_triple:
  "quantum_bytes (triple_val a b c div 262144) (triple_val a b c div 4096 mod 64)
     (triple_val a b c div 64 mod 64) (triple_val a b c mod 64) = [a, b, c]"
proof -
  let ?v = "triple_val a b c"
  have lt: "unat b < 256" "unat c < 256"
    using unsigned_less [of b, where ?'a = nat] unsigned_less [of c, where ?'a = nat] by auto
  have "?v div 65536 = unat a" and "?v div 256 = unat a * 256 + unat b"
    using lt by (auto simp add: triple_val_def)
  moreover have m: "x * 256 = 0" "x * 65536 = 0" for x :: byte
  proof -
    have "(256 :: byte) = 0" and "(65536 :: byte) = 0" by simp_all
    then show "x * 256 = 0" "x * 65536 = 0" by (metis mult_zero_right)+
  qed
  have "(of_nat (unat a * 256 + unat b) :: byte) = b"
    and "(of_nat (triple_val a b c) :: byte) = c"
    by (simp_all add: triple_val_def m)
  ultimately show ?thesis
    by (simp add: quantum_bytes_def Let_def flip: base64_split3)
qed

lemma triple_low_digits:
  "triple_val a 0 0 div 64 mod 64 = 0" "triple_val a 0 0 mod 64 = 0"
  "triple_val a b 0 mod 64 = 0"
proof -
  have 1: "triple_val a 0 0 = unat a * 16 * 4096" and 2: "triple_val a b 0 = (unat a * 1024 + unat b * 4) * 64"
    by (simp_all add: triple_val_def)
  have "triple_val a 0 0 div 64 = unat a * 16 * 64" unfolding 1 by simp
  then show "triple_val a 0 0 div 64 mod 64 = 0" by simp
  show "triple_val a 0 0 mod 64 = 0" "triple_val a b 0 mod 64 = 0"
    unfolding 2 by (simp_all add: triple_val_def mod_mult_left_eq)
qed

lemma b64_quanta_encode: "b64_quanta (EncodeToString bs) = Some bs"
proof (induction bs rule: EncodeToString.induct)
  case (2 a)
  show ?case
    using quantum_triple [of a 0 0] triple_val_div [of a 0 0]
    by (simp add: Let_def triple_low_digits)
next
  case (3 a b)
  show ?case
    using quantum_triple [of a b 0] triple_val_div [of a b 0]
    by (simp add: Let_def triple_low_digits)
next
  case (4 a b c s)
  then show ?case
    using quantum_triple [of a b c] triple_val_div [of a b c]
    by (simp add: Let_def)
qed simp

lemma EncodeToString_no_newline: "c \<in> set (EncodeToString bs) \<Longrightarrow> \<not> is_newline c"
proof (induction bs rule: EncodeToString.induct)
  case (2 a)
  then show ?case using triple_val_div [of a 0 0] by (auto simp add: Let_def is_newline_def)
next
  case (3 a b)
  then show ?case using triple_val_div [of a b 0] by (auto simp add: Let_def is_newline_def)
next
  case (4 a b c s)
  then show ?case using triple_val_div [of a b c] by (auto simp add: Let_def is_newline_def)
qed simp

interpretation base64: codec EncodeToString DecodeString "\<lambda>_. True"
proof unfold_locales
  fix bs
  have "filter (\<lambda>c. \<not> is_newline c) (EncodeToString bs) = EncodeToString bs"
    using EncodeToString_no_newline by (auto simp add: filter_id_conv)
  then show "DecodeString (EncodeToString bs) = Some bs"
    by (simp add: DecodeString_def b64_quanta_encode)
qed

text \<open>The encoded text is ASCII: letters, digits, \<open>+\<close>, \<open>/\<close> and \<open>=\<close>.\<close>

definition b64_text_char :: "char \<Rightarrow> bool" where
  "b64_text_char c \<longleftrightarrow> b64_val c \<noteq> None \<or> c = CHR ''=''"

lemma EncodeToString_chars: "c \<in> set (EncodeToString bs) \<Longrightarrow> b64_text_char c"
proof (induction bs rule: EncodeToString.induct)
  case (2 a)
  then show ?case using triple_val_div [of a 0 0] by (auto simp add: Let_def b64_text_char_def)
next
  case (3 a b)
  then show ?case using triple_val_div [of a b 0] by (auto simp add: Let_def b64_text_char_def)
next
  case (4 a b c s)
  then show ?case using triple_val_div [of a b c] by (auto simp add: Let_def b64_text_char_def)
qed simp

end
