(* ===== verification/Gentx.thy ===== *)
theory Gentx
  imports GoBase64
begin

text \<open>
  The data of \<open>gentxvalidate\<close>: the decoded gentx (\<open>decode.go\<close>), the launch parameters
  (\<open>params.go\<close>), the check results (\<open>result.go\<close>) and the package's errors. A Go error is a
  constructor that keeps the arguments of its format string; the text of an error wrapped from
  another package is left out. Record fields carry a prefix where two structs share a name.
\<close>

section \<open>The decoded gentx\<close>

definition MsgCreateValidatorTypeURL :: string where
  "MsgCreateValidatorTypeURL = ''/cosmos.staking.v1beta1.MsgCreateValidator''"

definition secp256k1PubKeyTypeURL :: string where
  "secp256k1PubKeyTypeURL = ''/cosmos.crypto.secp256k1.PubKey''"

definition ed25519PubKeyTypeURL :: string where
  "ed25519PubKeyTypeURL = ''/cosmos.crypto.ed25519.PubKey''"

definition legacyAminoPubKeyTypeURL :: string where
  "legacyAminoPubKeyTypeURL = ''/cosmos.crypto.multisig.LegacyAminoPubKey''"

definition signModeDirectName :: string where
  "signModeDirectName = ''SIGN_MODE_DIRECT''"

definition signModeAminoJSONName :: string where
  "signModeAminoJSONName = ''SIGN_MODE_LEGACY_AMINO_JSON''"

record Description =
  Moniker :: string
  Identity :: string
  Website :: string
  SecurityContact :: string
  Details :: string

record CommissionRates =
  Rate :: string
  MaxRate :: string
  MaxChangeRate :: string

record Coin =
  Denom :: string
  Amount :: string

record MsgCreateValidator =
  MsgDescription :: Description
  MsgCommission :: CommissionRates
  MsgMinSelfDelegation :: string
  DelegatorAddress :: string
  ValidatorAddress :: string
  ConsensusPubKeyTypeURL :: string
  ConsensusPubKey :: bytes
  MsgValue :: Coin

record MultisigMember =
  MemberTypeURL :: string
  MemberPubKey :: bytes

record MultisigSigner =
  Threshold :: uint32
  Members :: "MultisigMember list"
  Modes :: "string list"
  BitarrayElems :: bytes
  ExtraBitsStored :: int

record SignerInfo =
  PubKeyTypeURL :: string
  PubKey :: bytes
  Mode :: string
  Sequence :: uint64
  Multisig :: "MultisigSigner option"

record Fee =
  FeeAmount :: "Coin list"
  GasLimit :: uint64
  Payer :: string
  Granter :: string

record ParsedGentx =
  Msg :: MsgCreateValidator
  Memo :: string
  TimeoutHeight :: uint64
  Signer :: SignerInfo
  TxFee :: Fee
  Signature :: bytes

section \<open>Errors\<close>

datatype gerr =
    ErrParseJSON
  | ErrLegacyStdTx string
  | ErrMessageCount nat
  | ErrSignerInfoCount nat
  | ErrSignatureCount nat
  | ErrExtensionOptions
  | ErrParseMessage
  | ErrMessageType string
  | ErrConsensusPubKey
  | ErrAccountPubKey
  | ErrSignatureBase64
  | ErrParseUint string
  | ErrNoComponentKeys
  | ErrThresholdRange uint32 nat
  | ErrNoModeInfos
  | ErrBitarrayBase64
  | ErrComponentPubKey
  | ErrEmptyNumber string
  | ErrInvalidNumber string string
  | ErrTooManyDecimals string
  | ErrSignMode string
  | ErrNoAminoName string
  | ErrMarshalStdSignDoc
  | ErrAccountKeyType string
  | ErrAccountKeyLen nat
  | ErrSignatureLen nat
  | ErrParseAccountKey
  | ErrComponentMode nat string
  | ErrBitCount int nat
  | ErrSignatureCounts nat nat nat
  | ErrComponentKeyType nat string
  | ErrComponentKeyLen nat nat
  | ErrComponentSigLen nat nat
  | ErrMalformedEnvelope
  | ErrEnvelopeOverrun
  | ErrEnvelopeEmpty
  | ErrNoAminoPrefix nat string
  | ErrConvertBits
  | ErrBech32Encode
  | ErrInvalidBech32
  | ErrHRP string string
  | ErrInvalidPayload
  | ErrPayloadLen nat

section \<open>Launch parameters\<close>

record Params =
  ChainID :: string
  BondDenom :: string
  Bech32Prefix :: string
  ParamMinSelfDelegation :: string
  MinCommissionRate :: string
  MaxCommissionRate :: string
  MaxCommissionChangeRate :: string
  MaxMonikerLen :: int

definition DefaultMaxMonikerLen :: int where
  "DefaultMaxMonikerLen = 70"

definition maxMonikerLen :: "Params \<Rightarrow> int" where
  "maxMonikerLen p = (if MaxMonikerLen p \<le> 0 then DefaultMaxMonikerLen else MaxMonikerLen p)"

section \<open>Results\<close>

text \<open>The reason of a failed check: \<open>NoReason\<close> is the empty string of a passed one.\<close>

datatype reason =
    NoReason
  | ReasonErr gerr
  | ChainIDNotSet
  | ChainIDMismatch string string
  | BondDenomNotSet
  | DenomMismatch string string
  | InvalidFloor string
  | InvalidAmount string
  | BelowFloor string string
  | RateAboveMax string string
  | MaxRateAboveOne string
  | ChangeRateAboveMax string string
  | RateBelowFloor string string
  | RateAboveCeiling string string
  | MaxRateAboveCeiling string string
  | ChangeRateAboveCeiling string string
  | MonikerEmpty
  | MonikerTooLong nat int
  | MonikerNotUtf8
  | MonikerControl nat
  | PrefixNotSet
  | CannotDerive gerr
  | ValidatorAddressErr gerr
  | ValidatorNotDerived
  | DelegatorAddressErr gerr
  | DelegatorNotDerived
  | ConsensusKeyType string
  | ConsensusKeyLen nat
  | SignatureInvalid string
  | NoVerifier string

record Result =
  Invariant :: string
  OK :: bool
  Reason :: reason

definition InvWellFormed :: string where "InvWellFormed = ''well_formed''"
definition InvChainID :: string where "InvChainID = ''chain_id''"
definition InvBondDenom :: string where "InvBondDenom = ''bond_denom''"
definition InvSelfDelegation :: string where "InvSelfDelegation = ''self_delegation''"
definition InvCommissionConsistency :: string where
  "InvCommissionConsistency = ''commission_consistency''"
definition InvCommissionChangeRate :: string where
  "InvCommissionChangeRate = ''commission_change_rate''"
definition InvCommissionBounds :: string where "InvCommissionBounds = ''commission_bounds''"
definition InvMoniker :: string where "InvMoniker = ''moniker''"
definition InvOperatorAddress :: string where "InvOperatorAddress = ''operator_address''"
definition InvConsensusPubKey :: string where "InvConsensusPubKey = ''consensus_pubkey''"
definition InvSignatureDirect :: string where "InvSignatureDirect = ''signature_direct''"
definition InvSignatureAminoJSON :: string where
  "InvSignatureAminoJSON = ''signature_amino_json''"
definition InvSignatureUnsupportedMode :: string where
  "InvSignatureUnsupportedMode = ''signature_unsupported_mode''"

lemmas Inv_defs = InvWellFormed_def InvChainID_def InvBondDenom_def InvSelfDelegation_def
  InvCommissionConsistency_def InvCommissionChangeRate_def InvCommissionBounds_def
  InvMoniker_def InvOperatorAddress_def InvConsensusPubKey_def InvSignatureDirect_def
  InvSignatureAminoJSON_def InvSignatureUnsupportedMode_def

definition pass :: "string \<Rightarrow> Result" where
  "pass i = \<lparr>Invariant = i, OK = True, Reason = NoReason\<rparr>"

definition fail :: "string \<Rightarrow> reason \<Rightarrow> Result" where
  "fail i r = \<lparr>Invariant = i, OK = False, Reason = r\<rparr>"

fun AllOK :: "Result list \<Rightarrow> bool" where
  "AllOK [] = True"
| "AllOK (r # rs) = (if \<not> OK r then False else AllOK rs)"

lemma pass_fail_simps [simp]:
  "OK (pass i)" "\<not> OK (fail i r)" "Invariant (pass i) = i" "Invariant (fail i r) = i"
  "Reason (pass i) = NoReason" "Reason (fail i r) = r" "pass i \<noteq> fail j r"
  by (simp_all add: pass_def fail_def)

lemma AllOK_iff: "AllOK rs \<longleftrightarrow> (\<forall>r\<in>set rs. OK r)"
  by (induction rs) auto

end
