(* ===== verification/GoSha256.thy ===== *)
theory GoSha256
  imports Prelude
begin

text \<open>
  \<open>crypto/sha256\<close>: \<open>Sum256\<close> as FIPS 180-4 defines it, on 32-bit words with wrap-around
  addition. The message is padded to whole 64-byte blocks, each block is expanded to 64 words and
  compressed into the eight-word state. The digest has 32 bytes (\<open>length_Sum256\<close>).
\<close>

section \<open>The round functions and constants\<close>

definition sha_ch :: "uint32 \<Rightarrow> uint32 \<Rightarrow> uint32 \<Rightarrow> uint32" where
  "sha_ch x y z = (x AND y) XOR (NOT x AND z)"

definition sha_maj :: "uint32 \<Rightarrow> uint32 \<Rightarrow> uint32 \<Rightarrow> uint32" where
  "sha_maj x y z = (x AND y) XOR (x AND z) XOR (y AND z)"

definition rotr :: "nat \<Rightarrow> uint32 \<Rightarrow> uint32" where
  "rotr n x = drop_bit n x OR push_bit (32 - n) x"

definition sha_Sigma0 :: "uint32 \<Rightarrow> uint32" where
  "sha_Sigma0 x = rotr 2 x XOR rotr 13 x XOR rotr 22 x"

definition sha_Sigma1 :: "uint32 \<Rightarrow> uint32" where
  "sha_Sigma1 x = rotr 6 x XOR rotr 11 x XOR rotr 25 x"

definition sha_sigma0 :: "uint32 \<Rightarrow> uint32" where
  "sha_sigma0 x = rotr 7 x XOR rotr 18 x XOR drop_bit 3 x"

definition sha_sigma1 :: "uint32 \<Rightarrow> uint32" where
  "sha_sigma1 x = rotr 17 x XOR rotr 19 x XOR drop_bit 10 x"

definition sha_consts :: "uint32 list" where
  "sha_consts =
     [1116352408, 1899447441, 3049323471, 3921009573, 961987163, 1508970993, 2453635748,
      2870763221, 3624381080, 310598401, 607225278, 1426881987, 1925078388, 2162078206,
      2614888103, 3248222580, 3835390401, 4022224774, 264347078, 604807628, 770255983,
      1249150122, 1555081692, 1996064986, 2554220882, 2821834349, 2952996808, 3210313671,
      3336571891, 3584528711, 113926993, 338241895, 666307205, 773529912, 1294757372,
      1396182291, 1695183700, 1986661051, 2177026350, 2456956037, 2730485921, 2820302411,
      3259730800, 3345764771, 3516065817, 3600352804, 4094571909, 275423344, 430227734,
      506948616, 659060556, 883997877, 958139571, 1322822218, 1537002063, 1747873779,
      1955562222, 2024104815, 2227730452, 2361852424, 2428436474, 2756734187, 3204031479,
      3329325298]"

text \<open>The eight working variables.\<close>

record sha_state =
  sha_a :: uint32
  sha_b :: uint32
  sha_c :: uint32
  sha_d :: uint32
  sha_e :: uint32
  sha_f :: uint32
  sha_g :: uint32
  sha_h :: uint32

definition sha_init :: sha_state where
  "sha_init =
     \<lparr>sha_a = 1779033703,
      sha_b = 3144134277, sha_c = 1013904242, sha_d = 2773480762,
      sha_e = 1359893119, sha_f = 2600822924, sha_g = 528734635,
      sha_h = 1541459225\<rparr>"

section \<open>Padding and blocks\<close>

definition sha_pad :: "bytes \<Rightarrow> bytes" where
  "sha_pad m =
     (let l = (of_nat (8 * length m) :: uint64) in
      m @ [0x80] @ replicate ((119 - length m mod 64) mod 64) 0 @
      map (\<lambda>i. ucast (drop_bit (56 - 8 * i) l)) [0..<8])"

fun be_words :: "bytes \<Rightarrow> uint32 list" where
  "be_words (p # q # r # s # bs) =
     (push_bit 24 (ucast p) OR push_bit 16 (ucast q) OR push_bit 8 (ucast r) OR ucast s) # be_words bs"
| "be_words _ = []"

definition word_bytes :: "uint32 \<Rightarrow> bytes" where
  "word_bytes w = [ucast (drop_bit 24 w), ucast (drop_bit 16 w), ucast (drop_bit 8 w), ucast w]"

section \<open>Compression\<close>

primrec sha_schedule :: "nat \<Rightarrow> uint32 list \<Rightarrow> uint32 list" where
  "sha_schedule 0 ws = ws"
| "sha_schedule (Suc n) ws =
     (let t = length ws in
      sha_schedule n (ws @ [sha_sigma1 (ws ! (t - 2)) + ws ! (t - 7) + sha_sigma0 (ws ! (t - 15))
                            + ws ! (t - 16)]))"

definition sha_round :: "sha_state \<Rightarrow> uint32 \<times> uint32 \<Rightarrow> sha_state" where
  "sha_round x kw =
     (let t1 = sha_h x + sha_Sigma1 (sha_e x) + sha_ch (sha_e x) (sha_f x) (sha_g x) + fst kw + snd kw;
          t2 = sha_Sigma0 (sha_a x) + sha_maj (sha_a x) (sha_b x) (sha_c x)
      in \<lparr>sha_a = t1 + t2, sha_b = sha_a x, sha_c = sha_b x, sha_d = sha_c x, sha_e = sha_d x + t1, sha_f = sha_e x, sha_g = sha_f x,
          sha_h = sha_g x\<rparr>)"

definition sha_add :: "sha_state \<Rightarrow> sha_state \<Rightarrow> sha_state" where
  "sha_add x y =
     \<lparr>sha_a = sha_a x + sha_a y, sha_b = sha_b x + sha_b y, sha_c = sha_c x + sha_c y, sha_d = sha_d x + sha_d y,
      sha_e = sha_e x + sha_e y, sha_f = sha_f x + sha_f y, sha_g = sha_g x + sha_g y, sha_h = sha_h x + sha_h y\<rparr>"

definition sha_block :: "sha_state \<Rightarrow> bytes \<Rightarrow> sha_state" where
  "sha_block x b =
     sha_add x (foldl sha_round x (zip sha_consts (sha_schedule 48 (be_words b))))"

primrec sha_blocks :: "nat \<Rightarrow> sha_state \<Rightarrow> bytes \<Rightarrow> sha_state" where
  "sha_blocks 0 x m = x"
| "sha_blocks (Suc n) x m = sha_blocks n (sha_block x (take 64 m)) (drop 64 m)"

definition Sum256 :: "bytes \<Rightarrow> bytes" where
  "Sum256 m =
     (let p = sha_pad m; x = sha_blocks (length p div 64) sha_init p
      in concat (map word_bytes [sha_a x, sha_b x, sha_c x, sha_d x, sha_e x, sha_f x, sha_g x, sha_h x]))"

lemma length_Sum256 [simp]: "length (Sum256 m) = 32"
  by (simp add: Sum256_def word_bytes_def Let_def)

text \<open>The padded message is whole blocks, so no byte of it is left out.\<close>

lemma sha_pad_blocks: "64 dvd length (sha_pad m)"
proof -
  obtain q r where qr: "length m = q * 64 + r" "r < 64"
    using mod_less_divisor [of 64 "length m"] div_mult_mod_eq [of "length m" 64]
    by (metis zero_less_numeral)
  have "length (sha_pad m) = length m + 9 + (119 - length m mod 64) mod 64"
    by (simp add: sha_pad_def Let_def)
  also have "\<dots> = q * 64 + (r + 9 + (119 - r) mod 64)" using qr by simp
  finally have len: "length (sha_pad m) = q * 64 + (r + 9 + (119 - r) mod 64)" .
  have "(r + 9 + (119 - r) mod 64) mod 64 = 0"
  proof (cases "r \<le> 55")
    case True
    then have "119 - r = (55 - r) + 64" by simp
    then have "(119 - r) mod 64 = (55 - r) mod 64" by (metis mod_add_self2)
    with True show ?thesis by simp
  next
    case False
    with qr(2) show ?thesis by simp
  qed
  then have "64 dvd (r + 9 + (119 - r) mod 64)" by (simp add: mod_eq_0_iff_dvd)
  then show ?thesis unfolding len by simp
qed

end
