(* ===== verification/Keys.thy ===== *)
theory Keys
  imports Gentx GoSha256
begin

text \<open>
  The third-party code the program calls, as the fields of one record, and the single-key part of
  \<open>gentxvalidate/verify.go\<close>: the gate on the signer's shape and the check of a 64-byte compact
  signature. Slicing a signature panics in Go when it is too short; every caller checks the length
  first, so no run of the program panics here.
\<close>

section \<open>Third-party code\<close>

text \<open>
  The fields are parameters of the model: \<open>secp256k1.ParsePubKey\<close> (None is its error),
  \<open>ModNScalar.SetByteSlice\<close> (the scalar and the overflow flag), \<open>Verify\<close> of the signature
  \<open>ecdsa.NewSignature(r, s)\<close> on a hash and a key, the RIPEMD-160 digest, and the bech32
  functions \<open>Decode\<close>, \<open>Encode\<close> and \<open>ConvertBits\<close>.
\<close>

record ('pk, 'sc) externals =
  ParsePubKey :: "bytes \<Rightarrow> 'pk option"
  SetByteSlice :: "bytes \<Rightarrow> 'sc \<times> bool"
  ecdsa_Verify :: "'sc \<Rightarrow> 'sc \<Rightarrow> bytes \<Rightarrow> 'pk \<Rightarrow> bool"
  ripemd160 :: "bytes \<Rightarrow> bytes"
  bech32_Decode :: "string \<Rightarrow> nat \<Rightarrow> (string \<times> bytes) option"
  bech32_Encode :: "string \<Rightarrow> bytes \<Rightarrow> string option"
  bech32_ConvertBits :: "bytes \<Rightarrow> nat \<Rightarrow> nat \<Rightarrow> bool \<Rightarrow> bytes option"

section \<open>Single keys\<close>

definition compressedPubKeyLen :: nat where
  "compressedPubKeyLen = 33"

definition compactSigLen :: nat where
  "compactSigLen = 64"

definition checkSingleSecpSigner :: "ParsedGentx \<Rightarrow> gerr + unit" where
  "checkSingleSecpSigner g =
     (if PubKeyTypeURL (Signer g) \<noteq> secp256k1PubKeyTypeURL
      then Inl (ErrAccountKeyType (PubKeyTypeURL (Signer g)))
      else if length (PubKey (Signer g)) \<noteq> compressedPubKeyLen
      then Inl (ErrAccountKeyLen (length (PubKey (Signer g))))
      else if length (Signature g) \<noteq> compactSigLen
      then Inl (ErrSignatureLen (length (Signature g)))
      else Inr ())"

definition verifySecpCompact ::
  "('pk, 'sc) externals \<Rightarrow> bytes \<Rightarrow> bytes \<Rightarrow> bytes \<Rightarrow> (gerr + bool) outcome" where
  "verifySecpCompact X pubKey sig signBytes =
     (case ParsePubKey X pubKey of
        None \<Rightarrow> Ret (Inl ErrParseAccountKey)
      | Some pub \<Rightarrow>
          if length sig < 32 then Panic
          else
            let (r, overflow) = SetByteSlice X (take 32 sig) in
            if overflow then Ret (Inr False)
            else
              let (s, overflow) = SetByteSlice X (drop 32 sig) in
              if overflow then Ret (Inr False)
              else
                let hash = Sum256 signBytes
                in Ret (Inr (ecdsa_Verify X r s hash pub)))"

text \<open>
  What acceptance means: the key parses, both halves are scalars below the group order, and the
  signature they form verifies over the hash of the message.
\<close>

definition secp_valid :: "('pk, 'sc) externals \<Rightarrow> bytes \<Rightarrow> bytes \<Rightarrow> bytes \<Rightarrow> bool" where
  "secp_valid X pubKey sig m \<longleftrightarrow>
     (\<exists>pub r s. ParsePubKey X pubKey = Some pub \<and> SetByteSlice X (take 32 sig) = (r, False) \<and>
        SetByteSlice X (drop 32 sig) = (s, False) \<and> ecdsa_Verify X r s (Sum256 m) pub)"

lemma checkSingleSecpSigner_ok:
  "checkSingleSecpSigner g = Inr u \<longleftrightarrow>
     PubKeyTypeURL (Signer g) = secp256k1PubKeyTypeURL \<and> length (PubKey (Signer g)) = 33 \<and>
     length (Signature g) = 64"
  by (auto simp add: checkSingleSecpSigner_def compressedPubKeyLen_def compactSigLen_def)

lemma verifySecpCompact_returns:
  "32 \<le> length sig \<Longrightarrow> verifySecpCompact X k sig m \<noteq> Panic"
  by (simp add: verifySecpCompact_def Let_def split: option.split prod.split)

lemma verifySecpCompact_True:
  "32 \<le> length sig \<Longrightarrow>
   verifySecpCompact X k sig m = Ret (Inr True) \<longleftrightarrow> secp_valid X k sig m"
  by (auto simp add: verifySecpCompact_def secp_valid_def split: option.split prod.split)

text \<open>An error means the key did not parse; everything else is a verdict.\<close>

lemma verifySecpCompact_error:
  "verifySecpCompact X k sig m = Ret (Inl e) \<longleftrightarrow> ParsePubKey X k = None \<and> e = ErrParseAccountKey"
  by (auto simp add: verifySecpCompact_def split: option.split prod.split)

end
