(* ===== verification/Protowire.thy ===== *)
theory Protowire
  imports Prelude
begin

text \<open>
  \<open>gentxvalidate/protowire.go\<close>, the protobuf wire-format writer, and its reading counterpart
  \<open>binary.Uvarint\<close> of the standard library. A field is a tag and a varint or a
  length-delimited payload; a message is a concatenation of fields. The reader \<open>dec_field\<close>
  is the abstract view of a message: it shows that the bytes determine the list of fields.
\<close>

section \<open>The writer\<close>

definition wireVarint :: uint64 where "wireVarint = 0"
definition wireBytes :: uint64 where "wireBytes = 2"
definition varintMSB :: uint64 where "varintMSB = 0x80"

function appendUvarint :: "bytes \<Rightarrow> uint64 \<Rightarrow> bytes" where
  "appendUvarint b v =
     (if varintMSB \<le> v
      then appendUvarint (b @ [ucast v OR ucast varintMSB]) (drop_bit 7 v)
      else b @ [ucast v])"
  by pat_completeness auto

lemma unat_drop_bit_7: "unat (drop_bit 7 (v :: uint64)) = unat v div 128"
  unfolding unat_drop_bit_eq by (simp add: drop_bit_eq_div)

termination appendUvarint
proof (relation "measure (\<lambda>(b, v). unat v)", simp)
  fix b :: bytes and v :: uint64
  assume "varintMSB \<le> v"
  then have "128 \<le> unat v" by (simp add: varintMSB_def word_le_nat_alt)
  then show "((b @ [ucast v OR ucast varintMSB], drop_bit 7 v), b, v) \<in> measure (\<lambda>(b, v). unat v)"
    by (simp add: unat_drop_bit_7)
qed

declare appendUvarint.simps [simp del]

definition appendTag :: "bytes \<Rightarrow> uint64 \<Rightarrow> uint64 \<Rightarrow> bytes" where
  "appendTag b field wire = appendUvarint b (push_bit 3 field OR wire)"

definition appendVarintField :: "bytes \<Rightarrow> uint64 \<Rightarrow> uint64 \<Rightarrow> bytes" where
  "appendVarintField b field v =
     (let b = appendTag b field wireVarint in appendUvarint b v)"

definition appendBytesField :: "bytes \<Rightarrow> uint64 \<Rightarrow> bytes \<Rightarrow> bytes" where
  "appendBytesField b field v =
     (let b = appendTag b field wireBytes; b = appendUvarint b (of_nat (length v)) in b @ v)"

definition appendStringField :: "bytes \<Rightarrow> uint64 \<Rightarrow> string \<Rightarrow> bytes" where
  "appendStringField b field s =
     (let b = appendTag b field wireBytes; b = appendUvarint b (of_nat (length s))
      in b @ bytes_of s)"

section \<open>The reader\<close>

text \<open>
  \<open>binary.Uvarint\<close>: the value and the bytes read, 0 when the buffer ends first, and minus the
  bytes read when the value overflows 64 bits.
\<close>

fun uvarint_loop :: "nat \<Rightarrow> uint64 \<Rightarrow> nat \<Rightarrow> bytes \<Rightarrow> uint64 \<times> int" where
  "uvarint_loop i x s [] = (0, 0)"
| "uvarint_loop i x s (b # bs) =
     (if i = 10 then (0, - (int i + 1))
      else if b < 0x80 then
        (if i = 9 \<and> 1 < b then (0, - (int i + 1)) else (x OR push_bit s (ucast b), int i + 1))
      else uvarint_loop (i + 1) (x OR push_bit s (ucast (b AND 0x7F))) (s + 7) bs)"

definition Uvarint :: "bytes \<Rightarrow> uint64 \<times> int" where
  "Uvarint buf = uvarint_loop 0 0 0 buf"

definition dec_uvarint :: "bytes \<Rightarrow> (uint64 \<times> bytes) option" where
  "dec_uvarint b = (case Uvarint b of (v, n) \<Rightarrow> if n \<le> 0 then None else Some (v, drop (nat n) b))"

subsection \<open>Reading back what was written\<close>

definition uvarint_bytes :: "uint64 \<Rightarrow> bytes" where
  "uvarint_bytes v = appendUvarint [] v"

lemma appendUvarint_prefix: "appendUvarint (c @ b) v = c @ appendUvarint b v"
proof (induction b v rule: appendUvarint.induct)
  case (1 b v)
  show ?case
  proof (cases "varintMSB \<le> v")
    case True
    with 1 show ?thesis
      by (simp add: appendUvarint.simps [of "c @ b" v] appendUvarint.simps [of b v])
  next
    case False
    then show ?thesis
      by (simp add: appendUvarint.simps [of "c @ b" v] appendUvarint.simps [of b v])
  qed
qed

lemma appendUvarint_append: "appendUvarint b v = b @ uvarint_bytes v"
  using appendUvarint_prefix [of b "[]" v] by (simp add: uvarint_bytes_def)

lemma uvarint_bytes_unfold:
  "uvarint_bytes v =
     (if varintMSB \<le> v then (ucast v OR ucast varintMSB) # uvarint_bytes (drop_bit 7 v)
      else [ucast v])"
  unfolding uvarint_bytes_def [of v]
  by (subst appendUvarint.simps) (simp add: appendUvarint_append)

lemma uvarint_bytes_not_Nil [simp]: "uvarint_bytes v \<noteq> []"
  by (subst uvarint_bytes_unfold) simp

lemma varint_step_byte:
  fixes v :: uint64
  shows "\<not> (ucast v OR ucast varintMSB :: byte) < 0x80"
    and "(ucast ((ucast v OR ucast varintMSB :: byte) AND 0x7F) :: uint64) = take_bit 7 v"
proof -
  have "(ucast varintMSB :: byte) \<le> ucast v OR ucast varintMSB" by (rule le_word_or1)
  then show "\<not> (ucast v OR ucast varintMSB :: byte) < 0x80"
    by (simp add: varintMSB_def)
  have "(ucast ((ucast v OR ucast (2 ^ k :: uint64) :: byte) AND mask k) :: uint64) = take_bit k v"
    if "k \<le> 8" for k
    using that by (intro bit_word_eqI) (auto simp add: bit_simps)
  from this [of 7]
  have "(ucast ((ucast v OR ucast varintMSB :: byte) AND mask 7) :: uint64) = take_bit 7 v"
    by (simp add: varintMSB_def)
  then show "(ucast ((ucast v OR ucast varintMSB :: byte) AND 0x7F) :: uint64) = take_bit 7 v"
    by (simp add: mask_eq_exp_minus_1)
qed

lemma take_bit_drop_bit_or: "take_bit n v OR push_bit n (drop_bit n v) = (v :: uint64)"
  by (rule bit_word_eqI) (auto simp add: bit_simps, metis add_diff_inverse_nat)

lemma varint_step_bits:
  "(x OR push_bit s (take_bit 7 v)) OR push_bit (s + 7) (drop_bit 7 v) = x OR push_bit s (v :: uint64)"
proof -
  have "push_bit s v = push_bit s (take_bit 7 v OR push_bit 7 (drop_bit 7 v))"
    by (metis take_bit_drop_bit_or)
  then show ?thesis by (simp add: or.assoc)
qed

lemma varint_last_byte:
  assumes "\<not> varintMSB \<le> (v :: uint64)"
  shows "(ucast v :: byte) < 0x80" and "(ucast (ucast v :: byte) :: uint64) = v"
    and "unat (ucast v :: byte) = unat v"
proof -
  have v: "unat v < 128" using assms by (simp add: varintMSB_def word_le_nat_alt)
  then show u: "unat (ucast v :: byte) = unat v" unfolding unsigned_ucast_eq by (simp add: take_bit_eq_mod)
  with v show "(ucast v :: byte) < 0x80" by (simp add: word_less_nat_alt)
  from v have "v = take_bit 7 v"
    unfolding word_unat_eq_iff unsigned_take_bit_eq by (simp add: take_bit_eq_mod)
  moreover have "(ucast (ucast (take_bit 7 v) :: byte) :: uint64) = take_bit 7 v"
    by (rule bit_word_eqI) (auto simp add: bit_simps)
  ultimately show "(ucast (ucast v :: byte) :: uint64) = v" by simp
qed

text \<open>
  The loop reads a written varint back from any position whose remaining width holds the
  value, whatever follows it.
\<close>

lemma uvarint_loop_bytes:
  assumes "i \<le> 9" and "unat v < 2 ^ (64 - 7 * i)"
  shows "uvarint_loop i x (7 * i) (uvarint_bytes v @ r) =
           (x OR push_bit (7 * i) v, int (i + length (uvarint_bytes v)))"
  using assms
proof (induction v arbitrary: i x rule: measure_induct_rule [where f = unat])
  case (less v)
  show ?case
  proof (cases "varintMSB \<le> v")
    case True
    then have ge: "128 \<le> unat v" by (simp add: varintMSB_def word_le_nat_alt)
    have i: "i \<le> 8"
    proof (rule ccontr)
      assume "\<not> i \<le> 8"
      with less.prems have "i = 9" by simp
      with less.prems ge show False by simp
    qed
    define k where "k = 64 - 7 * (i + 1)"
    have "64 - 7 * i = k + 7" using i by (simp add: k_def)
    from less.prems(2) [unfolded this] have "unat v < 2 ^ k * 128"
      by (simp add: power_add)
    then have "unat v < 2 ^ (64 - 7 * (i + 1)) * 128" unfolding k_def .
    then have bnd: "unat (drop_bit 7 v) < 2 ^ (64 - 7 * (i + 1))"
      unfolding unat_drop_bit_7 by (rule less_mult_imp_div_less)
    have dec: "unat (drop_bit 7 v) < unat v" using ge by (simp add: unat_drop_bit_7)
    have "i + 1 \<le> 9" using i by simp
    then have "uvarint_loop (i + 1) y (7 * (i + 1)) (uvarint_bytes (drop_bit 7 v) @ r) =
        (y OR push_bit (7 * (i + 1)) (drop_bit 7 v),
         int (i + 1 + length (uvarint_bytes (drop_bit 7 v))))" for y
      by (rule less.IH [OF dec _ bnd])
    moreover have "uvarint_bytes v = (ucast v OR ucast varintMSB) # uvarint_bytes (drop_bit 7 v)"
      using True by (subst uvarint_bytes_unfold) simp
    ultimately show ?thesis
      using i varint_step_byte [of v] varint_step_bits [of x "7 * i" v]
      by (simp add: algebra_simps)
  next
    case False
    note last = varint_last_byte [OF False]
    have "\<not> (i = 9 \<and> 1 < (ucast v :: byte))"
      using less.prems last(3) by (auto simp add: word_less_nat_alt)
    with last less.prems(1) False show ?thesis
      by (simp add: uvarint_bytes_unfold [of v])
  qed
qed

lemma Uvarint_bytes [codec_simps]:
  "Uvarint (uvarint_bytes v @ r) = (v, int (length (uvarint_bytes v)))"
proof -
  have "unat v < 2 ^ 64" using unsigned_less [of v, where ?'a = nat] by simp
  then show ?thesis
    using uvarint_loop_bytes [of 0 v 0 r] by (simp add: Uvarint_def)
qed

lemma dec_uvarint_bytes [codec_simps]: "dec_uvarint (uvarint_bytes v @ r) = Some (v, r)"
  by (simp add: dec_uvarint_def codec_simps)

interpretation varint: prefix_codec uvarint_bytes dec_uvarint "\<lambda>_. True"
  by unfold_locales (simp_all add: codec_simps)

section \<open>Messages as lists of fields\<close>

datatype wire_value = Varint uint64 | LenDelim bytes

type_synonym field = "uint64 \<times> wire_value"

definition enc_field :: "field \<Rightarrow> bytes" where
  "enc_field f = (case f of
     (n, Varint v) \<Rightarrow> appendVarintField [] n v
   | (n, LenDelim b) \<Rightarrow> appendBytesField [] n b)"

definition dec_field :: "bytes \<Rightarrow> (field \<times> bytes) option" where
  "dec_field b =
     Option.bind (dec_uvarint b) (\<lambda>(tag, b).
       if tag AND 7 = wireVarint then
         map_option (\<lambda>(v, b). ((drop_bit 3 tag, Varint v), b)) (dec_uvarint b)
       else if tag AND 7 = wireBytes then
         Option.bind (dec_uvarint b) (\<lambda>(n, b).
           if length b < unat n then None
           else Some ((drop_bit 3 tag, LenDelim (take (unat n) b)), drop (unat n) b))
       else None)"

definition enc_fields :: "field list \<Rightarrow> bytes" where
  "enc_fields fs = concat (map enc_field fs)"

text \<open>A field number below \<open>2 ^ 61\<close> survives the tag shift; a payload's length fits 64 bits.\<close>

definition field_ok :: "field \<Rightarrow> bool" where
  "field_ok f \<longleftrightarrow> unat (fst f) < 2 ^ 61 \<and>
     (case snd f of Varint v \<Rightarrow> True | LenDelim b \<Rightarrow> length b < 2 ^ 64)"

lemma appendTag_append: "appendTag b n w = b @ uvarint_bytes (push_bit 3 n OR w)"
  by (simp add: appendTag_def appendUvarint_append)

lemma appendVarintField_append: "appendVarintField b n v = b @ enc_field (n, Varint v)"
  by (simp add: appendVarintField_def enc_field_def appendTag_append appendUvarint_append)

lemma appendBytesField_append: "appendBytesField b n v = b @ enc_field (n, LenDelim v)"
  by (simp add: appendBytesField_def enc_field_def appendTag_append appendUvarint_append)

lemma appendStringField_append: "appendStringField b n s = b @ enc_field (n, LenDelim (bytes_of s))"
  by (simp add: appendStringField_def enc_field_def appendBytesField_def appendTag_append
      appendUvarint_append)

lemmas append_fields = appendVarintField_append appendBytesField_append appendStringField_append

lemma tag_parts:
  assumes "unat (n :: uint64) < 2 ^ 61" "w < 8"
  shows "(push_bit 3 n OR w) AND 7 = w" and "drop_bit 3 (push_bit 3 n OR w) = n"
proof -
  have n: "n = take_bit 61 n" and w: "w = take_bit 3 w"
    using assms unfolding word_unat_eq_iff unsigned_take_bit_eq
    by (simp_all add: take_bit_eq_mod word_less_nat_alt)
  have "(push_bit 3 n OR w) AND mask 3 = take_bit 3 w"
    by (rule bit_word_eqI) (auto simp add: bit_simps)
  with w show "(push_bit 3 n OR w) AND 7 = w" by (simp add: mask_eq_exp_minus_1)
  have "drop_bit 3 (push_bit 3 (take_bit 61 n) OR take_bit 3 w) = take_bit 61 n"
    by (rule bit_word_eqI) (auto simp add: bit_simps)
  then show "drop_bit 3 (push_bit 3 n OR w) = n" by (simp flip: n w)
qed

lemma dec_enc_field [codec_simps]:
  assumes "field_ok f"
  shows "dec_field (enc_field f @ r) = Some (f, r)"
proof -
  obtain n v where f: "f = (n, v)" by (cases f)
  have n: "unat n < 2 ^ 61" using assms by (simp add: f field_ok_def)
  note tags = tag_parts [OF n, of wireVarint] tag_parts [OF n, of wireBytes]
  show ?thesis
  proof (cases v)
    case (Varint x)
    with tags show ?thesis
      by (simp add: f enc_field_def dec_field_def appendVarintField_def appendTag_append
          appendUvarint_append codec_simps wireVarint_def)
  next
    case (LenDelim b)
    with assms have "unat (of_nat (length b) :: uint64) = length b"
      by (simp add: f field_ok_def unat_of_nat)
    with tags LenDelim show ?thesis
      by (simp add: f enc_field_def dec_field_def appendBytesField_def appendTag_append
          appendUvarint_append codec_simps wireVarint_def wireBytes_def)
  qed
qed

lemma enc_field_not_Nil [simp]: "enc_field f \<noteq> []"
  by (simp add: enc_field_def appendVarintField_def appendBytesField_def appendTag_append
      appendUvarint_append split: prod.split wire_value.split)

interpretation wire: prefix_codec enc_field dec_field field_ok
  by unfold_locales (simp_all add: dec_enc_field)

subsection \<open>Field lists\<close>

text \<open>
  A proto3 scalar at its default value is left out of the message. A message of distinct field
  numbers is read by looking a number up.
\<close>

definition str_field :: "uint64 \<Rightarrow> string \<Rightarrow> field list" where
  "str_field n s = (if s = [] then [] else [(n, LenDelim (bytes_of s))])"

definition num_field :: "uint64 \<Rightarrow> uint64 \<Rightarrow> field list" where
  "num_field n v = (if v = 0 then [] else [(n, Varint v)])"

lemma enc_fields_simps [simp]:
  "enc_fields [] = []" "enc_fields (f # fs) = enc_field f @ enc_fields fs"
  "enc_fields (fs @ gs) = enc_fields fs @ enc_fields gs"
  by (simp_all add: enc_fields_def)

lemma append_str_field:
  "(if s \<noteq> [] then appendStringField b n s else b) = b @ enc_fields (str_field n s)"
  by (simp add: str_field_def appendStringField_append)

lemma append_num_field:
  "(if v \<noteq> 0 then appendVarintField b n v else b) = b @ enc_fields (num_field n v)"
  by (simp add: num_field_def appendVarintField_append)

lemma append_bytes_field: "appendBytesField b n v = b @ enc_fields [(n, LenDelim v)]"
  by (simp add: appendBytesField_append)

lemma append_varint_field: "appendVarintField b n v = b @ enc_fields [(n, Varint v)]"
  by (simp add: appendVarintField_append)

lemmas wire_appends = append_str_field append_num_field append_bytes_field append_varint_field

lemma map_of_str_field [simp]:
  "map_of (str_field n s @ fs) m =
     (if m = n \<and> s \<noteq> [] then Some (LenDelim (bytes_of s)) else map_of fs m)"
  "map_of (str_field n s) m = (if m = n \<and> s \<noteq> [] then Some (LenDelim (bytes_of s)) else None)"
  by (auto simp add: str_field_def)

lemma map_of_num_field [simp]:
  "map_of (num_field n v @ fs) m = (if m = n \<and> v \<noteq> 0 then Some (Varint v) else map_of fs m)"
  "map_of (num_field n v) m = (if m = n \<and> v \<noteq> 0 then Some (Varint v) else None)"
  by (auto simp add: num_field_def)

definition str_of :: "uint64 \<Rightarrow> field list \<Rightarrow> string" where
  "str_of n fs = (case map_of fs n of Some (LenDelim b) \<Rightarrow> string_of b | _ \<Rightarrow> [])"

definition num_of :: "uint64 \<Rightarrow> field list \<Rightarrow> uint64" where
  "num_of n fs = (case map_of fs n of Some (Varint v) \<Rightarrow> v | _ \<Rightarrow> 0)"

definition payload_of :: "uint64 \<Rightarrow> field list \<Rightarrow> bytes" where
  "payload_of n fs = (case map_of fs n of Some (LenDelim b) \<Rightarrow> b | _ \<Rightarrow> [])"

lemma str_of_simps [simp]:
  "str_of n [] = []"
  "str_of n (str_field m s @ fs) = (if n = m \<and> s \<noteq> [] then s else str_of n fs)"
  "str_of n (str_field m s) = (if n = m then s else [])"
  "str_of n (num_field m v @ fs) = (if n = m \<and> v \<noteq> 0 then [] else str_of n fs)"
  "str_of n (num_field m v) = []"
  "str_of n ((m, LenDelim b) # fs) = (if n = m then string_of b else str_of n fs)"
  by (auto simp add: str_of_def simp del: map_of_append)

lemma num_of_simps [simp]:
  "num_of n [] = 0"
  "num_of n (str_field m s @ fs) = (if n = m \<and> s \<noteq> [] then 0 else num_of n fs)"
  "num_of n (str_field m s) = 0"
  "num_of n (num_field m v @ fs) = (if n = m \<and> v \<noteq> 0 then v else num_of n fs)"
  "num_of n (num_field m v) = (if n = m then v else 0)"
  "num_of n ((m, LenDelim b) # fs) = (if n = m then 0 else num_of n fs)"
  by (auto simp add: num_of_def simp del: map_of_append)

lemma payload_of_simps [simp]:
  "payload_of n [] = []"
  "payload_of n (str_field m s @ fs) = (if n = m \<and> s \<noteq> [] then bytes_of s else payload_of n fs)"
  "payload_of n (str_field m s) = (if n = m then bytes_of s else [])"
  "payload_of n (num_field m v @ fs) = (if n = m \<and> v \<noteq> 0 then [] else payload_of n fs)"
  "payload_of n (num_field m v) = []"
  "payload_of n ((m, LenDelim b) # fs) = (if n = m then b else payload_of n fs)"
  by (auto simp add: payload_of_def simp del: map_of_append)

definition payloads_of :: "uint64 \<Rightarrow> field list \<Rightarrow> bytes list" where
  "payloads_of n fs = [b. (m, LenDelim b) \<leftarrow> fs, m = n]"

lemma payloads_of_simps [simp]:
  "payloads_of n [] = []"
  "payloads_of n (fs @ gs) = payloads_of n fs @ payloads_of n gs"
  "payloads_of n (str_field m s) = (if n = m \<and> s \<noteq> [] then [bytes_of s] else [])"
  "payloads_of n (num_field m v) = []"
  "payloads_of n (map (\<lambda>x. (m, LenDelim (f x))) xs) = (if n = m then map f xs else [])"
  by (induction xs) (auto simp add: payloads_of_def str_field_def num_field_def)

text \<open>
  A field is longer than its payload, so a message that fits in 64 bits has only fields that
  do; such messages determine their field lists.
\<close>

definition small_numbers :: "field list \<Rightarrow> bool" where
  "small_numbers fs \<longleftrightarrow> (\<forall>f\<in>set fs. fst f < 16)"

lemma small_numbers_simps [simp]:
  "small_numbers []" "small_numbers (f # fs) \<longleftrightarrow> fst f < 16 \<and> small_numbers fs"
  "small_numbers (fs @ gs) \<longleftrightarrow> small_numbers fs \<and> small_numbers gs"
  "n < 16 \<Longrightarrow> small_numbers (str_field n s)" "n < 16 \<Longrightarrow> small_numbers (num_field n v)"
  by (auto simp add: small_numbers_def str_field_def num_field_def)

lemma length_enc_field: "length b \<le> length (enc_field (n, LenDelim b))"
  by (simp add: enc_field_def appendBytesField_def appendTag_append appendUvarint_append)

lemma length_payload_le:
  assumes "(n, LenDelim b) \<in> set fs"
  shows "length b \<le> length (enc_fields fs)"
proof -
  obtain gs hs where "fs = gs @ (n, LenDelim b) # hs"
    using assms by (auto simp add: in_set_conv_decomp)
  then show ?thesis using length_enc_field [of b n] by simp
qed

lemma small_fields_ok:
  assumes "small_numbers fs" "length (enc_fields fs) < 2 ^ 64"
  shows "\<forall>f\<in>set fs. field_ok f"
proof
  fix f assume f: "f \<in> set fs"
  then have "fst f < 16" using assms(1) by (simp add: small_numbers_def)
  then have "unat (fst f) < 2 ^ 61" by (simp add: word_less_nat_alt)
  moreover have "length b < 2 ^ 64" if "snd f = LenDelim b" for b
  proof -
    from that f have "(fst f, LenDelim b) \<in> set fs" by (metis prod.collapse)
    then show ?thesis using length_payload_le assms(2) by (meson le_less_trans)
  qed
  ultimately show "field_ok f" by (simp add: field_ok_def split: wire_value.split)
qed

lemma enc_fields_inject:
  assumes "small_numbers fs" "small_numbers gs" "length (enc_fields fs) < 2 ^ 64"
    and "enc_fields fs = enc_fields gs"
  shows "fs = gs"
  using wire.concat_enc_inject [of fs gs] small_fields_ok [of fs] small_fields_ok [of gs] assms
  by (simp add: enc_fields_def)

subsection \<open>Lengths\<close>

text \<open>A varint takes one byte per seven bits, so ten bytes for a 64-bit value.\<close>

lemma length_uvarint_le: "length (uvarint_bytes v) \<le> Suc k \<longleftrightarrow> unat v < 128 ^ Suc k"
proof (induction k arbitrary: v)
  case 0
  show ?case
    by (subst uvarint_bytes_unfold) (simp add: varintMSB_def word_le_nat_alt not_le)
next
  case (Suc k)
  show ?case
  proof (cases "varintMSB \<le> v")
    case True
    then have "length (uvarint_bytes v) = Suc (length (uvarint_bytes (drop_bit 7 v)))"
      by (subst uvarint_bytes_unfold) simp
    then have "length (uvarint_bytes v) \<le> Suc (Suc k) \<longleftrightarrow> unat v div 128 < 128 ^ Suc k"
      using Suc.IH [of "drop_bit 7 v"] by (simp add: unat_drop_bit_7)
    also have "\<dots> \<longleftrightarrow> unat v < 128 ^ Suc (Suc k)"
      by (simp add: div_less_iff_less_mult mult.commute)
    finally show ?thesis .
  next
    case False
    then have "unat v < 128 * 1" by (simp add: varintMSB_def word_le_nat_alt)
    also have "\<dots> \<le> 128 * 128 ^ Suc k" by (rule mult_le_mono2) simp
    finally have "unat v < 128 ^ Suc (Suc k)" by simp
    with False show ?thesis
      by (subst uvarint_bytes_unfold) (simp add: varintMSB_def word_le_nat_alt not_le)
  qed
qed

lemma length_uvarint_10: "length (uvarint_bytes v) \<le> 10"
proof -
  have "unat v < 128 ^ Suc 9" using unsigned_less [of v, where ?'a = nat] by simp
  then show ?thesis using length_uvarint_le [of v 9] by simp
qed

definition wire_len :: "field \<Rightarrow> nat" where
  "wire_len f = 20 + (case snd f of Varint v \<Rightarrow> 0 | LenDelim b \<Rightarrow> length b)"

lemma wire_len_simps [simp]:
  "wire_len (n, Varint v) = 20" "wire_len (n, LenDelim b) = 20 + length b"
  by (simp_all add: wire_len_def)

lemmas append_defs = appendVarintField_def appendBytesField_def appendTag_append appendUvarint_append

lemma length_enc_field_le: "length (enc_field f) \<le> wire_len f"
proof -
  obtain n v where f: "f = (n, v)" by (cases f)
  have "length (uvarint_bytes x) + length (uvarint_bytes y) \<le> 20" for x y
    using length_uvarint_10 [of x] length_uvarint_10 [of y] by simp
  then show ?thesis
    by (cases v) (simp_all add: f enc_field_def append_defs flip: add.assoc)
qed

lemma length_enc_fields_le: "length (enc_fields fs) \<le> sum_list (map wire_len fs)"
  by (induction fs) (auto intro: add_le_mono length_enc_field_le)

end
