(* ===== verification/Multisig.thy ===== *)
theory Multisig
  imports Keys Protowire
begin

text \<open>
  \<open>gentxvalidate/multisig.go\<close>: the compact bit array, the \<open>MultiSignature\<close> envelope, the
  address preimage of a \<open>LegacyAminoPubKey\<close> and the verification of a multisig. The index into
  the bit array is the one place of the package that can panic on decoded input; the lemmas say
  exactly when. Acceptance is shown to be k-of-n: at least the threshold of distinct members have
  a valid signature over the same bytes.
\<close>

section \<open>The compact bit array\<close>

text \<open>Go's \<open>int\<close> has 64 bits and wraps around.\<close>

definition wrap_int :: "int \<Rightarrow> int" where
  "wrap_int x = (x + 2 ^ 63) mod 2 ^ 64 - 2 ^ 63"

lemma wrap_int_id [simp]: "- (2 ^ 63) \<le> x \<Longrightarrow> x < 2 ^ 63 \<Longrightarrow> wrap_int x = x"
  by (simp add: wrap_int_def)

definition bitCount :: "MultisigSigner \<Rightarrow> int" where
  "bitCount ms =
     (if length (BitarrayElems ms) = 0 then 0
      else if ExtraBitsStored ms = 0 then int (length (BitarrayElems ms)) * 8
      else wrap_int ((int (length (BitarrayElems ms)) - 1) * 8 + ExtraBitsStored ms))"

definition bit_set :: "bytes \<Rightarrow> nat \<Rightarrow> bool" where
  "bit_set elems i \<longleftrightarrow> elems ! (i div 8) AND push_bit (7 - i mod 8) 1 \<noteq> 0"

text \<open>The loop \<open>for i := range ms.Members\<close> from index \<open>i\<close>, with \<open>n\<close> members left.\<close>

fun signerIndices_loop :: "bytes \<Rightarrow> nat \<Rightarrow> nat \<Rightarrow> nat list outcome" where
  "signerIndices_loop elems i 0 = Ret []"
| "signerIndices_loop elems i (Suc n) =
     (if length elems \<le> i div 8 then Panic
      else bindO (signerIndices_loop elems (i + 1) n) (\<lambda>idx.
        Ret (if bit_set elems i then i # idx else idx)))"

definition signerIndices :: "MultisigSigner \<Rightarrow> nat list outcome" where
  "signerIndices ms = signerIndices_loop (BitarrayElems ms) 0 (length (Members ms))"

lemma signerIndices_loop_Ret:
  "(\<forall>k < n. (i + k) div 8 < length elems) \<Longrightarrow>
   signerIndices_loop elems i n = Ret (filter (bit_set elems) [i..<i + n])"
proof (induction n arbitrary: i)
  case (Suc n)
  then have "\<forall>k < n. (i + 1 + k) div 8 < length elems" by fastforce
  from Suc.IH [OF this] have "signerIndices_loop elems (i + 1) n =
      Ret (filter (bit_set elems) [Suc i..<i + Suc n])"
    by simp
  moreover have "[i..<i + Suc n] = i # [Suc i..<i + Suc n]" by (simp add: upt_conv_Cons)
  moreover have "i div 8 < length elems" using Suc.prems by force
  ultimately show ?case by simp
qed simp

lemma signerIndices_loop_Panic:
  "k < n \<Longrightarrow> length elems \<le> (i + k) div 8 \<Longrightarrow> signerIndices_loop elems i n = Panic"
proof (induction n arbitrary: i k)
  case (Suc n)
  show ?case
  proof (cases k)
    case 0
    with Suc.prems show ?thesis by simp
  next
    case (Suc k')
    then have "signerIndices_loop elems (i + 1) n = Panic"
      using Suc.prems by (intro Suc.IH [of k']) auto
    then show ?thesis by simp
  qed
qed simp

lemma signerIndices_Ret:
  assumes "length (Members ms) \<le> 8 * length (BitarrayElems ms)"
  shows "signerIndices ms =
    Ret (filter (bit_set (BitarrayElems ms)) [0..<length (Members ms)])"
proof -
  have "\<forall>k < length (Members ms). (0 + k) div 8 < length (BitarrayElems ms)"
    using assms by (auto simp add: less_mult_imp_div_less mult.commute)
  from signerIndices_loop_Ret [OF this] show ?thesis by (simp add: signerIndices_def)
qed

lemma signerIndices_Panic:
  assumes "8 * length (BitarrayElems ms) < length (Members ms)"
  shows "signerIndices ms = Panic"
proof -
  have "length (BitarrayElems ms) \<le> (0 + 8 * length (BitarrayElems ms)) div 8" by simp
  with assms show ?thesis unfolding signerIndices_def by (rule signerIndices_loop_Panic)
qed

lemma signerIndices_Panic_iff:
  "signerIndices ms = Panic \<longleftrightarrow> 8 * length (BitarrayElems ms) < length (Members ms)"
  using signerIndices_Ret [of ms] signerIndices_Panic [of ms] by force

section \<open>The envelope\<close>

definition sigTag :: uint64 where
  "sigTag = push_bit 3 1 OR wireBytes"

function parse_sigs :: "bytes \<Rightarrow> gerr + bytes list" where
  "parse_sigs b =
     (if b = [] then Inr []
      else
        let (tag, n) = Uvarint b in
        if n \<le> 0 \<or> tag \<noteq> sigTag then Inl ErrMalformedEnvelope
        else
          let b1 = drop (nat n) b; (size, m) = Uvarint b1 in
          if m \<le> 0 then Inl ErrMalformedEnvelope
          else
            let b2 = drop (nat m) b1 in
            if of_nat (length b2) < size then Inl ErrEnvelopeOverrun
            else bindE (parse_sigs (drop (unat size) b2)) (\<lambda>sigs.
              Inr (take (unat size) b2 # sigs)))"
  by pat_completeness auto

termination parse_sigs
proof (relation "measure length", simp)
  fix b b1 b2 :: bytes and tag size :: uint64 and n m :: int and p q
  assume "b \<noteq> []" "\<not> (n \<le> 0 \<or> tag \<noteq> sigTag)" "b1 = drop (nat n) b" "b2 = drop (nat m) b1"
  then show "(drop (unat size) b2, b) \<in> measure length" by (cases b) auto
qed

declare parse_sigs.simps [simp del]

definition parseMultiSignature :: "bytes \<Rightarrow> gerr + bytes list" where
  "parseMultiSignature b =
     bindE (parse_sigs b) (\<lambda>sigs. if sigs = [] then Inl ErrEnvelopeEmpty else Inr sigs)"

text \<open>The envelope that holds \<open>sigs\<close>: field 1, repeated.\<close>

definition sig_envelope :: "bytes list \<Rightarrow> bytes" where
  "sig_envelope sigs = enc_fields (map (\<lambda>s. (1, LenDelim s)) sigs)"

lemma sig_envelope_simps [simp]:
  "sig_envelope [] = []"
  "sig_envelope (s # sigs) =
     uvarint_bytes sigTag @ uvarint_bytes (of_nat (length s)) @ s @ sig_envelope sigs"
  by (simp_all add: sig_envelope_def enc_field_def appendBytesField_def appendTag_append
      appendUvarint_append sigTag_def)

lemma parse_sigs_envelope:
  "\<forall>s\<in>set sigs. length s < 2 ^ 63 \<Longrightarrow> length (sig_envelope sigs) < 2 ^ 63 \<Longrightarrow>
   parse_sigs (sig_envelope sigs) = Inr sigs"
proof (induction sigs)
  case Nil
  then show ?case by (simp add: parse_sigs.simps)
next
  case (Cons s sigs)
  let ?rest = "s @ sig_envelope sigs"
  have len: "length ?rest < 2 ^ 63" using Cons.prems(2) by simp
  then have size: "unat (of_nat (length s) :: uint64) = length s"
    and "unat (of_nat (length ?rest) :: uint64) = length ?rest"
    unfolding unat_of_nat by simp_all
  then have fits: "\<not> of_nat (length ?rest) < (of_nat (length s) :: uint64)"
    unfolding word_less_nat_alt by simp
  have "parse_sigs (sig_envelope sigs) = Inr sigs" using Cons by simp
  moreover have "0 < length (uvarint_bytes v)" for v by simp
  ultimately show ?case
    using size fits
    by (subst parse_sigs.simps) (simp add: Uvarint_bytes not_le del: length_append)
qed

section \<open>The address preimage\<close>

definition multisigAminoPrefix :: bytes where
  "multisigAminoPrefix = [0x22, 0xC1, 0xF7, 0xE2]"

definition secpAminoPrefix :: bytes where
  "secpAminoPrefix = [0xEB, 0x5A, 0xE9, 0x87]"

definition ed25519AminoPrefix :: bytes where
  "ed25519AminoPrefix = [0x16, 0x24, 0xDE, 0x64]"

definition memberAminoPrefixes :: "string \<rightharpoonup> bytes" where
  "memberAminoPrefixes =
     [secp256k1PubKeyTypeURL \<mapsto> secpAminoPrefix, ed25519PubKeyTypeURL \<mapsto> ed25519AminoPrefix]"

definition accountAddrLen :: nat where
  "accountAddrLen = 20"

text \<open>The loop over the members carries the index and the bytes written so far.\<close>

fun appendMembers :: "nat \<Rightarrow> bytes \<Rightarrow> MultisigMember list \<Rightarrow> gerr + bytes" where
  "appendMembers i b [] = Inr b"
| "appendMembers i b (m # ms) =
     (case memberAminoPrefixes (MemberTypeURL m) of
        None \<Rightarrow> Inl (ErrNoAminoPrefix i (MemberTypeURL m))
      | Some prefix \<Rightarrow>
          let entry = [];
              entry = entry @ prefix;
              entry = appendUvarint entry (of_nat (length (MemberPubKey m)));
              entry = entry @ MemberPubKey m
          in appendMembers (i + 1) (appendBytesField b 2 entry) ms)"

definition multisigPreimage :: "MultisigSigner \<Rightarrow> gerr + bytes" where
  "multisigPreimage ms =
     (let b = [] @ multisigAminoPrefix;
          b = appendVarintField b 1 (ucast (Threshold ms))
      in appendMembers 0 b (Members ms))"

definition multisigAddressBytes :: "MultisigSigner \<Rightarrow> gerr + bytes" where
  "multisigAddressBytes ms =
     bindE (multisigPreimage ms) (\<lambda>b.
       let sum = Sum256 b in Inr (take accountAddrLen sum))"

lemma multisigAddressBytes_length:
  "multisigAddressBytes ms = Inr a \<Longrightarrow> length a = 20"
  by (auto simp add: multisigAddressBytes_def accountAddrLen_def)

text \<open>A member as the bytes that follow its tag, and the preimage as a field list.\<close>

definition member_ok :: "MultisigMember \<Rightarrow> bool" where
  "member_ok m \<longleftrightarrow> memberAminoPrefixes (MemberTypeURL m) \<noteq> None"

definition member_entry :: "MultisigMember \<Rightarrow> bytes" where
  "member_entry m = the (memberAminoPrefixes (MemberTypeURL m)) @
     uvarint_bytes (of_nat (length (MemberPubKey m))) @ MemberPubKey m"

definition multisig_fields :: "MultisigSigner \<Rightarrow> field list" where
  "multisig_fields ms = (1, Varint (ucast (Threshold ms))) #
     map (\<lambda>m. (2, LenDelim (member_entry m))) (Members ms)"

lemma appendMembers_fields:
  "appendMembers i b ms = Inr c \<longleftrightarrow> list_all member_ok ms \<and>
     c = b @ enc_fields (map (\<lambda>m. (2, LenDelim (member_entry m))) ms)"
proof (induction ms arbitrary: i b)
  case (Cons m ms)
  then show ?case
    by (auto simp add: member_ok_def member_entry_def appendUvarint_append
        appendBytesField_append split: option.split)
qed auto

lemma multisigPreimage_fields:
  "multisigPreimage ms = Inr b \<longleftrightarrow> list_all member_ok (Members ms) \<and>
     b = multisigAminoPrefix @ enc_fields (multisig_fields ms)"
  by (auto simp add: multisigPreimage_def appendMembers_fields multisig_fields_def
      appendVarintField_append Let_def)

lemma memberAminoPrefixes_Some:
  "memberAminoPrefixes t = Some q \<longleftrightarrow>
     t = secp256k1PubKeyTypeURL \<and> q = secpAminoPrefix \<or>
     t = ed25519PubKeyTypeURL \<and> q = ed25519AminoPrefix"
  by (auto simp add: memberAminoPrefixes_def secp256k1PubKeyTypeURL_def ed25519PubKeyTypeURL_def)

lemma member_entry_inject:
  assumes "member_ok m" "member_ok m'" "member_entry m = member_entry m'"
  shows "m = m'"
proof -
  obtain q q' where q: "memberAminoPrefixes (MemberTypeURL m) = Some q"
      "memberAminoPrefixes (MemberTypeURL m') = Some q'"
    using assms(1,2) by (auto simp add: member_ok_def)
  then have len: "length q = 4" "length q' = 4"
    by (auto simp add: memberAminoPrefixes_Some secpAminoPrefix_def ed25519AminoPrefix_def)
  let ?k = "\<lambda>m. uvarint_bytes (of_nat (length (MemberPubKey m))) @ MemberPubKey m"
  have "q @ ?k m = q' @ ?k m'" using assms(3) q by (simp add: member_entry_def)
  with len have qq: "q = q'" and k: "?k m = ?k m'" by auto
  from k have "MemberPubKey m = MemberPubKey m'" by (simp add: varint.enc_append_inject)
  moreover have "MemberTypeURL m = MemberTypeURL m'"
    using q qq by (auto simp add: memberAminoPrefixes_Some secpAminoPrefix_def ed25519AminoPrefix_def)
  ultimately show ?thesis by (cases m; cases m') simp
qed

lemma ucast_uint32_inject [simp]: "(ucast (x :: uint32) :: uint64) = ucast y \<longleftrightarrow> x = y"
proof -
  have "unat (ucast z :: uint64) = unat z" for z :: uint32
    using unsigned_less [of z, where ?'a = nat]
    by (simp add: unsigned_ucast_eq take_bit_nat_eq_self)
  then show ?thesis by (metis word_unat_eq_iff)
qed

lemma small_numbers_members: "small_numbers (multisig_fields ms)"
  by (auto simp add: small_numbers_def multisig_fields_def)

lemma multisigPreimage_inject:
  assumes "multisigPreimage ms = Inr b" "multisigPreimage ms' = Inr b" "length b < 2 ^ 64"
  shows "Threshold ms = Threshold ms' \<and> Members ms = Members ms'"
proof -
  have ok: "list_all member_ok (Members ms)" "list_all member_ok (Members ms')"
    and b: "b = multisigAminoPrefix @ enc_fields (multisig_fields ms)"
      "b = multisigAminoPrefix @ enc_fields (multisig_fields ms')"
    using assms(1,2) by (auto simp add: multisigPreimage_fields)
  then have eq: "enc_fields (multisig_fields ms) = enc_fields (multisig_fields ms')" by simp
  have "length (enc_fields (multisig_fields ms)) < 2 ^ 64" using assms(3) b(1) by simp
  from enc_fields_inject [OF small_numbers_members small_numbers_members this eq]
  have f: "multisig_fields ms = multisig_fields ms'" .
  then have thr: "(ucast (Threshold ms) :: uint64) = ucast (Threshold ms')"
    and ent: "map member_entry (Members ms) = map member_entry (Members ms')"
  proof -
    show "(ucast (Threshold ms) :: uint64) = ucast (Threshold ms')"
      using f by (simp add: multisig_fields_def)
    show "map member_entry (Members ms) = map member_entry (Members ms')"
      using arg_cong [OF f, of "\<lambda>fs. map (\<lambda>f. payload_of 2 [f]) (tl fs)"]
      by (simp add: multisig_fields_def comp_def)
  qed
  have "Members ms = Members ms'"
  proof (rule map_inj_on [OF ent])
    show "inj_on member_entry (set (Members ms) \<union> set (Members ms'))"
      using ok by (auto simp add: inj_on_def list_all_iff intro: member_entry_inject)
  qed
  moreover have "Threshold ms = Threshold ms'" using thr by simp
  ultimately show ?thesis by simp
qed

section \<open>Verification\<close>

fun checkModes :: "nat \<Rightarrow> string list \<Rightarrow> gerr + unit" where
  "checkModes i [] = Inr ()"
| "checkModes i (mode # modes) =
     (if mode \<noteq> signModeAminoJSONName then Inl (ErrComponentMode i mode)
      else checkModes (i + 1) modes)"

text \<open>
  The loop \<open>for j, idx := range signers\<close>. The two lists have the same length when it starts;
  reading past the signatures would panic, and so would an index past the members.
\<close>

fun verifyMembers ::
  "('pk, 'sc) externals \<Rightarrow> MultisigMember list \<Rightarrow> bytes \<Rightarrow> nat list \<Rightarrow> bytes list
   \<Rightarrow> (gerr + bool) outcome" where
  "verifyMembers X members signBytes [] sigs = Ret (Inr True)"
| "verifyMembers X members signBytes (idx # signers) sigs =
     (if length members \<le> idx then Panic
      else
        let member = members ! idx in
        if MemberTypeURL member \<noteq> secp256k1PubKeyTypeURL
        then Ret (Inl (ErrComponentKeyType idx (MemberTypeURL member)))
        else if length (MemberPubKey member) \<noteq> compressedPubKeyLen
        then Ret (Inl (ErrComponentKeyLen idx (length (MemberPubKey member))))
        else (case sigs of
            [] \<Rightarrow> Panic
          | sig # sigs \<Rightarrow>
              if length sig \<noteq> compactSigLen then Ret (Inl (ErrComponentSigLen idx (length sig)))
              else
                bindO (verifySecpCompact X (MemberPubKey member) sig signBytes) (\<lambda>v.
                  case v of
                    Inl e \<Rightarrow> Ret (Inl e)
                  | Inr ok \<Rightarrow> if \<not> ok then Ret (Inr False)
                      else verifyMembers X members signBytes signers sigs)))"

definition verifyAminoMultisig ::
  "('pk, 'sc) externals \<Rightarrow> MultisigSigner \<Rightarrow> bytes \<Rightarrow> bytes \<Rightarrow> (gerr + bool) outcome" where
  "verifyAminoMultisig X ms signature signBytes =
     (case checkModes 0 (Modes ms) of
        Inl e \<Rightarrow> Ret (Inl e)
      | Inr _ \<Rightarrow>
        if bitCount ms \<noteq> int (length (Members ms))
        then Ret (Inl (ErrBitCount (bitCount ms) (length (Members ms))))
        else
          bindO (signerIndices ms) (\<lambda>signers.
          case parseMultiSignature signature of
            Inl e \<Rightarrow> Ret (Inl e)
          | Inr sigs \<Rightarrow>
              if length sigs \<noteq> length signers \<or> length (Modes ms) \<noteq> length signers
              then Ret (Inl (ErrSignatureCounts (length sigs) (length (Modes ms)) (length signers)))
              else if length sigs < unat (Threshold ms) then Ret (Inr False)
              else verifyMembers X (Members ms) signBytes signers sigs))"

lemma checkModes_ok:
  "checkModes i modes = Inr u \<longleftrightarrow> (\<forall>m\<in>set modes. m = signModeAminoJSONName)"
  by (induction modes arbitrary: i) auto

lemma checkModes_cases:
  obtains "\<forall>m\<in>set modes. m = signModeAminoJSONName" "checkModes i modes = Inr ()"
  | e where "\<not> (\<forall>m\<in>set modes. m = signModeAminoJSONName)" "checkModes i modes = Inl e"
  by (metis checkModes_ok old.unit.exhaust sum.exhaust)

text \<open>A member's signature is accepted.\<close>

definition member_signed ::
  "('pk, 'sc) externals \<Rightarrow> bytes \<Rightarrow> MultisigMember \<Rightarrow> bytes \<Rightarrow> bool" where
  "member_signed X m member sig \<longleftrightarrow>
     MemberTypeURL member = secp256k1PubKeyTypeURL \<and> length (MemberPubKey member) = 33 \<and>
     length sig = 64 \<and> secp_valid X (MemberPubKey member) sig m"

lemma verifyMembers_True:
  "length signers = length sigs \<Longrightarrow> \<forall>i\<in>set signers. i < length members \<Longrightarrow>
   verifyMembers X members m signers sigs = Ret (Inr True) \<longleftrightarrow>
     list_all2 (\<lambda>i sig. member_signed X m (members ! i) sig) signers sigs"
proof (induction signers sigs rule: list_induct2)
  case (Cons i signers sig sigs)
  have "verifySecpCompact X (MemberPubKey (members ! i)) sig m = Ret (Inr True) \<longleftrightarrow>
      secp_valid X (MemberPubKey (members ! i)) sig m" if "length sig = 64"
    using that by (intro verifySecpCompact_True) simp
  with Cons show ?case
    by (cases "verifySecpCompact X (MemberPubKey (members ! i)) sig m")
       (auto simp add: Let_def member_signed_def compressedPubKeyLen_def compactSigLen_def
         split: sum.splits)
qed simp

lemma verifyMembers_returns:
  "length signers = length sigs \<Longrightarrow> \<forall>i\<in>set signers. i < length members \<Longrightarrow>
   verifyMembers X members m signers sigs \<noteq> Panic"
proof (induction signers sigs rule: list_induct2)
  case (Cons i signers sig sigs)
  have "verifySecpCompact X (MemberPubKey (members ! i)) sig m \<noteq> Panic" if "length sig = 64"
    using that by (intro verifySecpCompact_returns) simp
  with Cons show ?case
    by (auto simp add: Let_def compactSigLen_def bindO_eq_Panic split: sum.splits)
qed simp

text \<open>The members the bit array marks.\<close>

definition signing_members :: "MultisigSigner \<Rightarrow> nat list" where
  "signing_members ms = filter (bit_set (BitarrayElems ms)) [0..<length (Members ms)]"

lemma signing_members_range: "i \<in> set (signing_members ms) \<Longrightarrow> i < length (Members ms)"
  and distinct_signing_members: "distinct (signing_members ms)"
  by (simp_all add: signing_members_def)

text \<open>The bit array covers the members: the index of every one of them is in range.\<close>

definition bitarray_covers :: "MultisigSigner \<Rightarrow> bool" where
  "bitarray_covers ms \<longleftrightarrow> length (Members ms) \<le> 8 * length (BitarrayElems ms)"

lemma signerIndices_members:
  "signerIndices ms = (if bitarray_covers ms then Ret (signing_members ms) else Panic)"
  using signerIndices_Ret [of ms] signerIndices_Panic [of ms]
  by (auto simp add: bitarray_covers_def signing_members_def)

lemma bitarray_covers_extra:
  assumes "bitCount ms = int (length (Members ms))"
    and "0 \<le> ExtraBitsStored ms" "ExtraBitsStored ms < 8" "length (BitarrayElems ms) < 2 ^ 59"
  shows "bitarray_covers ms"
proof (cases "BitarrayElems ms = [] \<or> ExtraBitsStored ms = 0")
  case True
  with assms(1) show ?thesis by (auto simp add: bitCount_def bitarray_covers_def split: if_splits)
next
  case False
  then have "0 < length (BitarrayElems ms)" by simp
  then have "bitCount ms = (int (length (BitarrayElems ms)) - 1) * 8 + ExtraBitsStored ms"
    using False assms by (auto simp add: bitCount_def intro!: wrap_int_id)
  with assms show ?thesis by (auto simp add: bitarray_covers_def)
qed

lemma verifyAminoMultisig_Panic:
  "verifyAminoMultisig X ms sig m = Panic \<longleftrightarrow>
     (\<forall>d\<in>set (Modes ms). d = signModeAminoJSONName) \<and>
     bitCount ms = int (length (Members ms)) \<and> \<not> bitarray_covers ms"
proof -
  have "verifyMembers X (Members ms) m (signing_members ms) sigs \<noteq> Panic"
    if "length sigs = length (signing_members ms)" for sigs
    using that signing_members_range by (intro verifyMembers_returns) auto
  then show ?thesis
    by - (rule checkModes_cases [of "Modes ms" 0],
      auto simp add: verifyAminoMultisig_def signerIndices_members split: sum.splits)
qed

lemma verifyAminoMultisig_True:
  "verifyAminoMultisig X ms sig m = Ret (Inr True) \<longleftrightarrow>
     (\<forall>d\<in>set (Modes ms). d = signModeAminoJSONName) \<and> length (Modes ms) = length (signing_members ms) \<and>
     bitCount ms = int (length (Members ms)) \<and> bitarray_covers ms \<and>
     unat (Threshold ms) \<le> length (signing_members ms) \<and>
     (\<exists>sigs. parseMultiSignature sig = Inr sigs \<and>
        list_all2 (\<lambda>i s. member_signed X m (Members ms ! i) s) (signing_members ms) sigs)"
proof -
  have step: "verifyMembers X (Members ms) m (signing_members ms) sigs = Ret (Inr True) \<longleftrightarrow>
      list_all2 (\<lambda>i s. member_signed X m (Members ms ! i) s) (signing_members ms) sigs"
    if "length sigs = length (signing_members ms)" for sigs
    using that signing_members_range by (intro verifyMembers_True) auto
  show ?thesis
  proof (cases "parseMultiSignature sig")
    case (Inl e)
    then show ?thesis
      by (auto simp add: verifyAminoMultisig_def signerIndices_members split: sum.splits if_splits)
  next
    case (Inr sigs)
    have "length (signing_members ms) = length sigs"
      if "list_all2 (\<lambda>i s. member_signed X m (Members ms ! i) s) (signing_members ms) sigs"
      using that by (rule list_all2_lengthD)
    then show ?thesis
      using Inr step [of sigs]
      by - (rule checkModes_cases [of "Modes ms" 0],
        auto simp add: verifyAminoMultisig_def signerIndices_members split: if_splits)
  qed
qed

text \<open>Acceptance is k-of-n, over the signatures of the envelope.\<close>

lemma signing_members_sorted: "sorted_wrt (<) (signing_members ms)"
  by (simp add: signing_members_def sorted_wrt_filter)

lemma verifyAminoMultisig_k_of_n:
  assumes "verifyAminoMultisig X ms sig m = Ret (Inr True)"
  shows "\<exists>sigs members. parseMultiSignature sig = Inr sigs \<and> unat (Threshold ms) \<le> length sigs \<and>
    sorted_wrt (<) members \<and> set members \<subseteq> {..<length (Members ms)} \<and>
    list_all2 (\<lambda>i s. MemberTypeURL (Members ms ! i) = secp256k1PubKeyTypeURL \<and> length s = 64 \<and>
      secp_valid X (MemberPubKey (Members ms ! i)) s m) members sigs"
proof -
  from assms obtain sigs where sigs: "parseMultiSignature sig = Inr sigs"
    and thr: "unat (Threshold ms) \<le> length (signing_members ms)"
    and all: "list_all2 (\<lambda>i s. member_signed X m (Members ms ! i) s) (signing_members ms) sigs"
    by (auto simp add: verifyAminoMultisig_True)
  have "length (signing_members ms) = length sigs" using all by (rule list_all2_lengthD)
  moreover have "list_all2 (\<lambda>i s. MemberTypeURL (Members ms ! i) = secp256k1PubKeyTypeURL \<and> length s = 64 \<and>
      secp_valid X (MemberPubKey (Members ms ! i)) s m) (signing_members ms) sigs"
    using all by (rule list_all2_mono) (simp add: member_signed_def)
  moreover have "set (signing_members ms) \<subseteq> {..<length (Members ms)}" using signing_members_range by auto
  ultimately show ?thesis
    using sigs thr signing_members_sorted [of ms] by (intro exI conjI) simp_all
qed

end
