(* ===== verification/Address.thy ===== *)
theory Address
  imports Multisig
begin

text \<open>
  \<open>gentxvalidate/address.go\<close>: the address of the signing account, and bech32 addresses over the
  third-party codec. A derived address is what the operator address of a gentx must decode to.
\<close>

section \<open>Derivation\<close>

definition accountAddressBytes :: "('pk, 'sc) externals \<Rightarrow> bytes \<Rightarrow> bytes" where
  "accountAddressBytes X compressedPubKey =
     (let sha = Sum256 compressedPubKey in ripemd160 X sha)"

definition signerAddressBytes :: "('pk, 'sc) externals \<Rightarrow> SignerInfo \<Rightarrow> gerr + bytes" where
  "signerAddressBytes X s =
     (case Multisig s of
        Some ms \<Rightarrow> multisigAddressBytes ms
      | None \<Rightarrow>
          if PubKeyTypeURL s \<noteq> secp256k1PubKeyTypeURL
          then Inl (ErrAccountKeyType (PubKeyTypeURL s))
          else if length (PubKey s) \<noteq> compressedPubKeyLen
          then Inl (ErrAccountKeyLen (length (PubKey s)))
          else Inr (accountAddressBytes X (PubKey s)))"

section \<open>Bech32\<close>

definition encodeBech32Address ::
  "('pk, 'sc) externals \<Rightarrow> string \<Rightarrow> bytes \<Rightarrow> gerr + string" where
  "encodeBech32Address X hrp payload =
     (case bech32_ConvertBits X payload 8 5 True of
        None \<Rightarrow> Inl ErrConvertBits
      | Some data5 \<Rightarrow>
          (case bech32_Encode X hrp data5 of
             None \<Rightarrow> Inl ErrBech32Encode
           | Some addr \<Rightarrow> Inr addr))"

definition decodeBech32Address ::
  "('pk, 'sc) externals \<Rightarrow> string \<Rightarrow> string \<Rightarrow> gerr + bytes" where
  "decodeBech32Address X addr wantHRP =
     (case bech32_Decode X addr 1023 of
        None \<Rightarrow> Inl ErrInvalidBech32
      | Some (hrp, data5) \<Rightarrow>
          if hrp \<noteq> wantHRP then Inl (ErrHRP hrp wantHRP)
          else
            (case bech32_ConvertBits X data5 5 8 False of
               None \<Rightarrow> Inl ErrInvalidPayload
             | Some payload \<Rightarrow>
                 if length payload \<noteq> accountAddrLen then Inl (ErrPayloadLen (length payload))
                 else Inr payload))"

definition AccountAddress ::
  "('pk, 'sc) externals \<Rightarrow> ParsedGentx \<Rightarrow> string \<Rightarrow> gerr + string" where
  "AccountAddress X g hrp =
     bindE (signerAddressBytes X (Signer g)) (\<lambda>b. encodeBech32Address X hrp b)"

section \<open>Addresses and accounts\<close>

text \<open>
  The documented behaviour of the third-party functions that the round trip relies on, for the
  20-byte payloads the program encodes: regrouping the bits back inverts regrouping them, decoding
  inverts encoding under the prefix, and a RIPEMD-160 digest has 20 bytes.
\<close>

definition bech32_inverts :: "('pk, 'sc) externals \<Rightarrow> string \<Rightarrow> bool" where
  "bech32_inverts X hrp \<longleftrightarrow>
     (\<forall>b d. length b = 20 \<and> bech32_ConvertBits X b 8 5 True = Some d \<longrightarrow>
        bech32_ConvertBits X d 5 8 False = Some b \<and>
        (\<forall>a. bech32_Encode X hrp d = Some a \<longrightarrow> bech32_Decode X a 1023 = Some (hrp, d)))"

definition ripemd160_len :: "('pk, 'sc) externals \<Rightarrow> bool" where
  "ripemd160_len X \<longleftrightarrow> (\<forall>b. length (ripemd160 X b) = 20)"

lemma signerAddressBytes_length:
  assumes "ripemd160_len X" "signerAddressBytes X s = Inr b"
  shows "length b = 20"
  using assms multisigAddressBytes_length
  by (auto simp add: signerAddressBytes_def accountAddressBytes_def ripemd160_len_def
      split: option.splits if_splits)

lemma encode_decode_address:
  assumes "bech32_inverts X hrp" "length b = 20" "encodeBech32Address X hrp b = Inr a"
  shows "decodeBech32Address X a hrp = Inr b"
  using assms
  by (auto simp add: bech32_inverts_def encodeBech32Address_def decodeBech32Address_def
      accountAddrLen_def split: option.splits)

lemma AccountAddress_decodes:
  assumes "bech32_inverts X hrp" "ripemd160_len X" "AccountAddress X g hrp = Inr a"
  shows "signerAddressBytes X (Signer g) = decodeBech32Address X a hrp"
proof -
  from assms(3) obtain b where b: "signerAddressBytes X (Signer g) = Inr b"
      "encodeBech32Address X hrp b = Inr a"
    by (auto simp add: AccountAddress_def)
  with assms(1,2) show ?thesis
    by (simp add: encode_decode_address [OF assms(1) _ b(2)] signerAddressBytes_length)
qed

lemma decodeBech32Address_length: "decodeBech32Address X a hrp = Inr b \<Longrightarrow> length b = 20"
  by (auto simp add: decodeBech32Address_def accountAddrLen_def split: option.splits if_splits)

end
