(* ===== verification/SignDoc.thy ===== *)
theory SignDoc
  imports Gentx Protowire
begin

text \<open>
  \<open>gentxvalidate/signdoc.go\<close>: the \<open>SIGN_MODE_DIRECT\<close> sign bytes, message by message, and the
  decimal conversions they use. Every encoder is shown to be the concatenation of a list of
  protobuf fields, so the bytes determine what was signed: the chain id, the account number and
  every signed field of the gentx, the commission rates up to their decimal value.
\<close>

section \<open>Numbers on the wire\<close>

definition legacyDecPrecision :: nat where
  "legacyDecPrecision = 18"

definition checkDigits :: "string \<Rightarrow> string \<Rightarrow> gerr + unit" where
  "checkDigits s field =
     (if s = [] then Inl (ErrEmptyNumber field)
      else if \<not> all_digits s then Inl (ErrInvalidNumber field s)
      else Inr ())"

definition legacyDecWire :: "string \<Rightarrow> string \<Rightarrow> gerr + bytes" where
  "legacyDecWire s field =
     (let (intPart, fracPart) = Cut s CHR ''.'' in
      bindE (checkDigits intPart field) (\<lambda>_.
      bindE (if fracPart \<noteq> [] then checkDigits fracPart field else Inr ()) (\<lambda>_.
      if legacyDecPrecision < length fracPart then Inl (ErrTooManyDecimals field)
      else
        let fracPart = fracPart @ replicate (legacyDecPrecision - length fracPart) zero_char;
            scaled = dropWhile (\<lambda>c. c = zero_char) (intPart @ fracPart);
            scaled = (if scaled = [] then ''0'' else scaled)
        in Inr (bytes_of scaled))))"

definition intWire :: "string \<Rightarrow> string \<Rightarrow> gerr + bytes" where
  "intWire s field = bindE (checkDigits s field) (\<lambda>_. Inr (bytes_of s))"

subsection \<open>The value of a decimal\<close>

text \<open>
  A decimal text is digits, optionally a dot, and at most 18 digits; its value in units of
  \<open>10 ^ -18\<close> is \<open>dec_scaled\<close>.
\<close>

definition dec_text :: "string \<Rightarrow> bool" where
  "dec_text s \<longleftrightarrow> (let (i, f) = Cut s CHR ''.'' in
     i \<noteq> [] \<and> all_digits i \<and> all_digits f \<and> length f \<le> 18)"

definition dec_scaled :: "string \<Rightarrow> nat" where
  "dec_scaled s = (let (i, f) = Cut s CHR ''.'' in
     digits_val i * 10 ^ 18 + digits_val f * 10 ^ (18 - length f))"

lemma checkDigits_eq_Inr [simp]: "checkDigits s f = Inr u \<longleftrightarrow> s \<noteq> [] \<and> all_digits s"
  by (simp add: checkDigits_def)

lemma all_digits_dropWhile: "all_digits s \<Longrightarrow> all_digits (dropWhile P s)"
  by (induction s) auto

lemma strip_zeros_canonical:
  assumes "all_digits s"
  shows "(if dropWhile (\<lambda>c. c = zero_char) s = [] then ''0''
          else dropWhile (\<lambda>c. c = zero_char) s) = format_nat (digits_val s)" (is "?t = _")
proof (rule digits_val_inject)
  show "all_digits ?t" using assms by (auto simp add: all_digits_dropWhile isDigit_def)
  show "no_leading_zero ?t"
    using hd_dropWhile [of "\<lambda>c. c = zero_char" s] by (auto simp add: no_leading_zero_def)
  show "digits_val ?t = digits_val (format_nat (digits_val s))"
  proof (cases "dropWhile (\<lambda>c. c = zero_char) s = []")
    case True
    from digits_val_strip [of s, unfolded this] True show ?thesis
      by (simp add: digits_val_Cons)
  next
    case False
    then show ?thesis by (simp only: if_False digits_val_strip format_nat_val)
  qed
qed simp_all

text \<open>The wire form is the canonical decimal of the scaled value, and decimals are all it accepts.\<close>

lemma legacyDecWire_spec:
  "legacyDecWire s field = Inr w \<longleftrightarrow> dec_text s \<and> w = bytes_of (format_nat (dec_scaled s))"
proof -
  obtain i f where c: "Cut s CHR ''.'' = (i, f)" by (cases "Cut s CHR ''.''")
  let ?p = "f @ replicate (18 - length f) zero_char"
  have "digits_val (i @ ?p) = digits_val i * 10 ^ 18 + digits_val f * 10 ^ (18 - length f)"
    if "length f \<le> 18"
    using that by (simp add: digits_val_append [of i])
  moreover have "all_digits i \<Longrightarrow> all_digits f \<Longrightarrow> all_digits (i @ ?p)" by simp
  ultimately have val: "(if dropWhile (\<lambda>c. c = zero_char) (i @ ?p) = [] then ''0''
      else dropWhile (\<lambda>c. c = zero_char) (i @ ?p)) = format_nat (dec_scaled s)"
    if "dec_text s"
    using that strip_zeros_canonical [of "i @ ?p"] by (simp add: dec_text_def dec_scaled_def c)
  show ?thesis
  proof (cases "dec_text s")
    case True
    then have "legacyDecWire s field = Inr (bytes_of
        (if dropWhile (\<lambda>c. c = zero_char) (i @ ?p) = [] then ''0''
         else dropWhile (\<lambda>c. c = zero_char) (i @ ?p)))"
      by (simp add: legacyDecWire_def dec_text_def c legacyDecPrecision_def Let_def checkDigits_def
          del: append_assoc)
    with True show ?thesis unfolding val [OF True] by auto
  next
    case False
    then consider (int) "i = [] \<or> \<not> all_digits i" | (frac) "i \<noteq> []" "all_digits i" "\<not> all_digits f"
      | (long) "i \<noteq> []" "all_digits i" "all_digits f" "\<not> length f \<le> 18"
      by (auto simp add: dec_text_def c)
    then have "\<exists>e. legacyDecWire s field = Inl e"
    proof cases
      case int
      then obtain e where "checkDigits i field = Inl e"
        using checkDigits_eq_Inr by (cases "checkDigits i field") auto
      then have "legacyDecWire s field = Inl e"
        by (simp only: legacyDecWire_def c Let_def prod.case bindE_simps)
      then show ?thesis by blast
    next
      case frac
      then have "f \<noteq> []" and i: "checkDigits i field = Inr ()" by auto
      moreover from frac obtain e where "checkDigits f field = Inl e"
        using checkDigits_eq_Inr by (cases "checkDigits f field") auto
      ultimately have "legacyDecWire s field = Inl e"
        by (simp only: legacyDecWire_def c Let_def prod.case bindE_simps not_False_eq_True if_True)
      then show ?thesis by blast
    next
      case long
      then have "f \<noteq> []" "checkDigits i field = Inr ()" "checkDigits f field = Inr ()" by auto
      with long have "legacyDecWire s field = Inl (ErrTooManyDecimals field)"
        by (simp only: legacyDecWire_def c Let_def prod.case bindE_simps legacyDecPrecision_def
            not_False_eq_True if_True not_le)
      then show ?thesis by blast
    qed
    with False show ?thesis by auto
  qed
qed

lemma legacyDecWire_error: "\<not> dec_text s \<Longrightarrow> \<exists>e. legacyDecWire s field = Inl e"
  using legacyDecWire_spec [of s field] by (cases "legacyDecWire s field") auto

lemma intWire_eq_Inr [simp]:
  "intWire s f = Inr w \<longleftrightarrow> s \<noteq> [] \<and> all_digits s \<and> w = bytes_of s"
  by (auto simp add: intWire_def)

section \<open>The messages\<close>

definition signModeDirect :: uint64 where
  "signModeDirect = 1"

definition encodeAny :: "string \<Rightarrow> bytes \<Rightarrow> bytes" where
  "encodeAny typeURL value =
     (let b = [];
          b = (if typeURL \<noteq> [] then appendStringField b 1 typeURL else b);
          b = (if 0 < length value then appendBytesField b 2 value else b)
      in b)"

definition encodeCoin :: "Coin \<Rightarrow> gerr + bytes" where
  "encodeCoin c =
     bindE (intWire (Amount c) ''coin amount'') (\<lambda>amount.
       let b = [];
           b = (if Denom c \<noteq> [] then appendStringField b 1 (Denom c) else b)
       in Inr (appendBytesField b 2 amount))"

definition encodeCommission :: "CommissionRates \<Rightarrow> gerr + bytes" where
  "encodeCommission c =
     bindE (legacyDecWire (Rate c) ''commission.rate'') (\<lambda>rate.
     bindE (legacyDecWire (MaxRate c) ''commission.max_rate'') (\<lambda>maxRate.
     bindE (legacyDecWire (MaxChangeRate c) ''commission.max_change_rate'') (\<lambda>maxChange.
       let b = appendBytesField [] 1 rate;
           b = appendBytesField b 2 maxRate
       in Inr (appendBytesField b 3 maxChange))))"

definition encodeDescription :: "Description \<Rightarrow> bytes" where
  "encodeDescription d =
     (let b = [];
          b = (if Moniker d \<noteq> [] then appendStringField b 1 (Moniker d) else b);
          b = (if Identity d \<noteq> [] then appendStringField b 2 (Identity d) else b);
          b = (if Website d \<noteq> [] then appendStringField b 3 (Website d) else b);
          b = (if SecurityContact d \<noteq> [] then appendStringField b 4 (SecurityContact d) else b);
          b = (if Details d \<noteq> [] then appendStringField b 5 (Details d) else b)
      in b)"

definition encodeMsgCreateValidator :: "MsgCreateValidator \<Rightarrow> gerr + bytes" where
  "encodeMsgCreateValidator m =
     (let desc = encodeDescription (MsgDescription m) in
      bindE (encodeCommission (MsgCommission m)) (\<lambda>comm.
      bindE (intWire (MsgMinSelfDelegation m) ''min_self_delegation'') (\<lambda>minSelf.
      let consAny = encodeAny (ConsensusPubKeyTypeURL m) (appendBytesField [] 1 (ConsensusPubKey m)) in
      bindE (encodeCoin (MsgValue m)) (\<lambda>val.
        let b = appendBytesField [] 1 desc;
            b = appendBytesField b 2 comm;
            b = appendBytesField b 3 minSelf;
            b = (if DelegatorAddress m \<noteq> [] then appendStringField b 4 (DelegatorAddress m) else b);
            b = (if ValidatorAddress m \<noteq> [] then appendStringField b 5 (ValidatorAddress m) else b);
            b = appendBytesField b 6 consAny
        in Inr (appendBytesField b 7 val)))))"

text \<open>The loop over the fee coins carries the bytes written so far.\<close>

fun encodeFeeCoins :: "bytes \<Rightarrow> Coin list \<Rightarrow> gerr + bytes" where
  "encodeFeeCoins b [] = Inr b"
| "encodeFeeCoins b (c # cs) =
     bindE (encodeCoin c) (\<lambda>coin. encodeFeeCoins (appendBytesField b 1 coin) cs)"

definition encodeFee :: "Fee \<Rightarrow> gerr + bytes" where
  "encodeFee f =
     bindE (encodeFeeCoins [] (FeeAmount f)) (\<lambda>b.
       let b = (if GasLimit f \<noteq> 0 then appendVarintField b 2 (GasLimit f) else b);
           b = (if Payer f \<noteq> [] then appendStringField b 3 (Payer f) else b);
           b = (if Granter f \<noteq> [] then appendStringField b 4 (Granter f) else b)
       in Inr b)"

definition encodeSignerInfo :: "SignerInfo \<Rightarrow> bytes" where
  "encodeSignerInfo s =
     (let pubKeyMsg = appendBytesField [] 1 (PubKey s);
          pubKeyAny = encodeAny (PubKeyTypeURL s) pubKeyMsg;
          single = appendVarintField [] 1 signModeDirect;
          modeInfo = appendBytesField [] 1 single;
          b = appendBytesField [] 1 pubKeyAny;
          b = appendBytesField b 2 modeInfo
      in if Sequence s \<noteq> 0 then appendVarintField b 3 (Sequence s) else b)"

definition encodeAuthInfo :: "ParsedGentx \<Rightarrow> gerr + bytes" where
  "encodeAuthInfo g =
     (let si = encodeSignerInfo (Signer g) in
      bindE (encodeFee (TxFee g)) (\<lambda>fee.
        Inr (appendBytesField (appendBytesField [] 1 si) 2 fee)))"

definition encodeTxBody :: "ParsedGentx \<Rightarrow> gerr + bytes" where
  "encodeTxBody g =
     bindE (encodeMsgCreateValidator (Msg g)) (\<lambda>msgBytes.
       let msgAny = encodeAny MsgCreateValidatorTypeURL msgBytes;
           b = appendBytesField [] 1 msgAny;
           b = (if Memo g \<noteq> [] then appendStringField b 2 (Memo g) else b);
           b = (if TimeoutHeight g \<noteq> 0 then appendVarintField b 3 (TimeoutHeight g) else b)
       in Inr b)"

definition DirectSignBytes :: "ParsedGentx \<Rightarrow> string \<Rightarrow> uint64 \<Rightarrow> gerr + bytes" where
  "DirectSignBytes g chainID accountNumber =
     (if Mode (Signer g) \<noteq> signModeDirectName then Inl (ErrSignMode (Mode (Signer g)))
      else
        bindE (encodeTxBody g) (\<lambda>bodyBytes.
        bindE (encodeAuthInfo g) (\<lambda>authBytes.
          let b = appendBytesField [] 1 bodyBytes;
              b = appendBytesField b 2 authBytes;
              b = (if chainID \<noteq> [] then appendStringField b 3 chainID else b);
              b = (if accountNumber \<noteq> 0 then appendVarintField b 4 accountNumber else b)
          in Inr b)))"

section \<open>The messages as field lists\<close>

definition dec_wire :: "string \<Rightarrow> bytes" where
  "dec_wire s = bytes_of (format_nat (dec_scaled s))"

definition any_fields :: "string \<Rightarrow> bytes \<Rightarrow> field list" where
  "any_fields t v = str_field 1 t @ (if v = [] then [] else [(2, LenDelim v)])"

definition coin_fields :: "Coin \<Rightarrow> field list" where
  "coin_fields c = str_field 1 (Denom c) @ [(2, LenDelim (bytes_of (Amount c)))]"

definition commission_fields :: "CommissionRates \<Rightarrow> field list" where
  "commission_fields c =
     [(1, LenDelim (dec_wire (Rate c))), (2, LenDelim (dec_wire (MaxRate c))),
      (3, LenDelim (dec_wire (MaxChangeRate c)))]"

definition description_fields :: "Description \<Rightarrow> field list" where
  "description_fields d =
     str_field 1 (Moniker d) @ str_field 2 (Identity d) @ str_field 3 (Website d) @
     str_field 4 (SecurityContact d) @ str_field 5 (Details d)"

definition key_any_fields :: "string \<Rightarrow> bytes \<Rightarrow> field list" where
  "key_any_fields t k = any_fields t (enc_fields [(1, LenDelim k)])"

definition msg_fields :: "MsgCreateValidator \<Rightarrow> field list" where
  "msg_fields m =
     [(1, LenDelim (enc_fields (description_fields (MsgDescription m)))),
      (2, LenDelim (enc_fields (commission_fields (MsgCommission m)))),
      (3, LenDelim (bytes_of (MsgMinSelfDelegation m)))] @
     str_field 4 (DelegatorAddress m) @ str_field 5 (ValidatorAddress m) @
     [(6, LenDelim (enc_fields (key_any_fields (ConsensusPubKeyTypeURL m) (ConsensusPubKey m)))),
      (7, LenDelim (enc_fields (coin_fields (MsgValue m))))]"

definition fee_fields :: "Fee \<Rightarrow> field list" where
  "fee_fields f =
     map (\<lambda>c. (1, LenDelim (enc_fields (coin_fields c)))) (FeeAmount f) @
     num_field 2 (GasLimit f) @ str_field 3 (Payer f) @ str_field 4 (Granter f)"

definition signer_fields :: "SignerInfo \<Rightarrow> field list" where
  "signer_fields s =
     [(1, LenDelim (enc_fields (key_any_fields (PubKeyTypeURL s) (PubKey s)))),
      (2, LenDelim (enc_fields [(1, LenDelim (enc_fields [(1, Varint signModeDirect)]))]))] @
     num_field 3 (Sequence s)"

definition auth_fields :: "ParsedGentx \<Rightarrow> field list" where
  "auth_fields g =
     [(1, LenDelim (enc_fields (signer_fields (Signer g)))),
      (2, LenDelim (enc_fields (fee_fields (TxFee g))))]"

definition body_fields :: "ParsedGentx \<Rightarrow> field list" where
  "body_fields g =
     [(1, LenDelim (enc_fields (any_fields MsgCreateValidatorTypeURL (enc_fields (msg_fields (Msg g))))))] @
     str_field 2 (Memo g) @ num_field 3 (TimeoutHeight g)"

definition sign_doc_fields :: "ParsedGentx \<Rightarrow> string \<Rightarrow> uint64 \<Rightarrow> field list" where
  "sign_doc_fields g chainID accountNumber =
     [(1, LenDelim (enc_fields (body_fields g))), (2, LenDelim (enc_fields (auth_fields g)))] @
     str_field 3 chainID @ num_field 4 accountNumber"

text \<open>What the encoders accept: amounts are digits and rates are decimals.\<close>

definition int_text :: "string \<Rightarrow> bool" where
  "int_text s \<longleftrightarrow> s \<noteq> [] \<and> all_digits s"

definition commission_ok :: "CommissionRates \<Rightarrow> bool" where
  "commission_ok c \<longleftrightarrow> dec_text (Rate c) \<and> dec_text (MaxRate c) \<and> dec_text (MaxChangeRate c)"

definition msg_ok :: "MsgCreateValidator \<Rightarrow> bool" where
  "msg_ok m \<longleftrightarrow> commission_ok (MsgCommission m) \<and> int_text (MsgMinSelfDelegation m) \<and>
     int_text (Amount (MsgValue m))"

definition fee_ok :: "Fee \<Rightarrow> bool" where
  "fee_ok f \<longleftrightarrow> list_all (\<lambda>c. int_text (Amount c)) (FeeAmount f)"

lemma encodeAny_fields: "encodeAny t v = enc_fields (any_fields t v)"
  by (simp add: encodeAny_def any_fields_def wire_appends Let_def)

lemma encodeCoin_fields:
  "encodeCoin c = Inr b \<longleftrightarrow> int_text (Amount c) \<and> b = enc_fields (coin_fields c)"
  by (auto simp add: encodeCoin_def coin_fields_def int_text_def wire_appends Let_def)

lemma encodeCommission_fields:
  "encodeCommission c = Inr b \<longleftrightarrow> commission_ok c \<and> b = enc_fields (commission_fields c)"
  by (auto simp add: encodeCommission_def commission_fields_def commission_ok_def dec_wire_def
      legacyDecWire_spec wire_appends Let_def)

lemma encodeDescription_fields: "encodeDescription d = enc_fields (description_fields d)"
  by (simp add: encodeDescription_def description_fields_def wire_appends Let_def)

lemma encodeMsgCreateValidator_fields:
  "encodeMsgCreateValidator m = Inr b \<longleftrightarrow> msg_ok m \<and> b = enc_fields (msg_fields m)"
  by (auto simp add: encodeMsgCreateValidator_def msg_fields_def msg_ok_def int_text_def
      key_any_fields_def encodeAny_fields encodeCoin_fields encodeCommission_fields
      encodeDescription_fields wire_appends Let_def)

lemma encodeFeeCoins_fields:
  "encodeFeeCoins a cs = Inr b \<longleftrightarrow> list_all (\<lambda>c. int_text (Amount c)) cs \<and>
     b = a @ enc_fields (map (\<lambda>c. (1, LenDelim (enc_fields (coin_fields c)))) cs)"
  by (induction cs arbitrary: a) (auto simp add: encodeCoin_fields wire_appends)

lemma encodeFee_fields: "encodeFee f = Inr b \<longleftrightarrow> fee_ok f \<and> b = enc_fields (fee_fields f)"
  by (auto simp add: encodeFee_def fee_fields_def fee_ok_def encodeFeeCoins_fields wire_appends
      Let_def)

lemma encodeSignerInfo_fields: "encodeSignerInfo s = enc_fields (signer_fields s)"
  by (simp add: encodeSignerInfo_def signer_fields_def key_any_fields_def encodeAny_fields
      wire_appends Let_def)

lemma encodeAuthInfo_fields:
  "encodeAuthInfo g = Inr b \<longleftrightarrow> fee_ok (TxFee g) \<and> b = enc_fields (auth_fields g)"
  by (auto simp add: encodeAuthInfo_def auth_fields_def encodeSignerInfo_fields encodeFee_fields
      wire_appends Let_def)

lemma encodeTxBody_fields:
  "encodeTxBody g = Inr b \<longleftrightarrow> msg_ok (Msg g) \<and> b = enc_fields (body_fields g)"
  by (auto simp add: encodeTxBody_def body_fields_def encodeMsgCreateValidator_fields
      encodeAny_fields wire_appends Let_def)

lemma DirectSignBytes_fields:
  "DirectSignBytes g c n = Inr b \<longleftrightarrow>
     Mode (Signer g) = signModeDirectName \<and> msg_ok (Msg g) \<and> fee_ok (TxFee g) \<and>
     b = enc_fields (sign_doc_fields g c n)"
  by (auto simp add: DirectSignBytes_def sign_doc_fields_def encodeTxBody_fields
      encodeAuthInfo_fields wire_appends Let_def)

section \<open>The bytes determine what was signed\<close>

lemma small_numbers_messages [simp]:
  "small_numbers (any_fields t v)" "small_numbers (coin_fields c)"
  "small_numbers (commission_fields r)" "small_numbers (description_fields d)"
  "small_numbers (key_any_fields t k)" "small_numbers (msg_fields m)"
  "small_numbers (fee_fields f)" "small_numbers (signer_fields s)"
  "small_numbers (auth_fields g)" "small_numbers (body_fields g)"
  "small_numbers (sign_doc_fields g chain acc)"
  by (simp_all add: any_fields_def coin_fields_def commission_fields_def description_fields_def
      key_any_fields_def msg_fields_def fee_fields_def signer_fields_def auth_fields_def
      body_fields_def sign_doc_fields_def)
    (simp add: small_numbers_def)

text \<open>Field lists of two messages are compared field number by field number.\<close>

lemma any_fields_inject:
  assumes "any_fields t v = any_fields t' v'"
  shows "t = t' \<and> v = v'"
  using arg_cong [OF assms, of "str_of 1"] arg_cong [OF assms, of "payload_of 2"]
  by (auto simp add: any_fields_def split: if_splits)

lemma coin_fields_inject:
  assumes "coin_fields c = coin_fields c'"
  shows "c = c'"
  using arg_cong [OF assms, of "str_of 1"] arg_cong [OF assms, of "str_of 2"]
  by (cases c; cases c') (auto simp add: coin_fields_def split: if_splits)

lemma description_fields_inject:
  assumes "description_fields d = description_fields d'"
  shows "d = d'"
  using arg_cong [OF assms, of "str_of 1"] arg_cong [OF assms, of "str_of 2"]
    arg_cong [OF assms, of "str_of 3"] arg_cong [OF assms, of "str_of 4"]
    arg_cong [OF assms, of "str_of 5"]
  by (cases d; cases d') (auto simp add: description_fields_def split: if_splits)

lemma dec_wire_inject [simp]: "dec_wire s = dec_wire t \<longleftrightarrow> dec_scaled s = dec_scaled t"
  by (metis bytes_of_inject dec_wire_def format_nat_val)

definition same_rates :: "CommissionRates \<Rightarrow> CommissionRates \<Rightarrow> bool" where
  "same_rates c c' \<longleftrightarrow> dec_scaled (Rate c) = dec_scaled (Rate c') \<and>
     dec_scaled (MaxRate c) = dec_scaled (MaxRate c') \<and>
     dec_scaled (MaxChangeRate c) = dec_scaled (MaxChangeRate c')"

lemma commission_fields_inject:
  "commission_fields c = commission_fields c' \<longleftrightarrow> same_rates c c'"
  by (simp add: commission_fields_def same_rates_def)

definition same_msg :: "MsgCreateValidator \<Rightarrow> MsgCreateValidator \<Rightarrow> bool" where
  "same_msg m m' \<longleftrightarrow> MsgDescription m = MsgDescription m' \<and>
     same_rates (MsgCommission m) (MsgCommission m') \<and>
     MsgMinSelfDelegation m = MsgMinSelfDelegation m' \<and>
     DelegatorAddress m = DelegatorAddress m' \<and> ValidatorAddress m = ValidatorAddress m' \<and>
     ConsensusPubKeyTypeURL m = ConsensusPubKeyTypeURL m' \<and>
     ConsensusPubKey m = ConsensusPubKey m' \<and> MsgValue m = MsgValue m'"

text \<open>Everything \<open>SIGN_MODE_DIRECT\<close> signs in the gentx, the rates by their value.\<close>

definition same_signed :: "ParsedGentx \<Rightarrow> ParsedGentx \<Rightarrow> bool" where
  "same_signed g g' \<longleftrightarrow> same_msg (Msg g) (Msg g') \<and> Memo g = Memo g' \<and>
     TimeoutHeight g = TimeoutHeight g' \<and>
     PubKeyTypeURL (Signer g) = PubKeyTypeURL (Signer g') \<and>
     PubKey (Signer g) = PubKey (Signer g') \<and> Sequence (Signer g) = Sequence (Signer g') \<and>
     TxFee g = TxFee g'"

text \<open>An embedded message is no longer than the message that holds it.\<close>

definition fits :: "field list \<Rightarrow> bool" where
  "fits fs \<longleftrightarrow> length (enc_fields fs) < 2 ^ 64"

lemma fits_payload:
  "fits fs \<Longrightarrow> (n, LenDelim (enc_fields gs)) \<in> set fs \<Longrightarrow> fits gs"
  using length_payload_le unfolding fits_def by (meson le_less_trans)

lemma enc_payload_inject:
  "small_numbers fs \<Longrightarrow> small_numbers gs \<Longrightarrow> fits fs \<Longrightarrow>
   enc_fields fs = enc_fields gs \<longleftrightarrow> fs = gs"
  using enc_fields_inject unfolding fits_def by blast

lemma key_any_inject:
  assumes "fits (key_any_fields t k)"
    and "enc_fields (key_any_fields t k) = enc_fields (key_any_fields t' k')"
  shows "t = t' \<and> k = k'"
proof -
  have "key_any_fields t k = key_any_fields t' k'"
    using assms enc_payload_inject small_numbers_messages(5) by blast
  then have t: "t = t'" and "enc_fields [(1, LenDelim k)] = enc_fields [(1, LenDelim k')]"
    using any_fields_inject unfolding key_any_fields_def by blast+
  moreover have "fits [(1, LenDelim k)]"
    using assms(1) by (rule fits_payload [where n = 2])
      (simp add: key_any_fields_def any_fields_def enc_field_not_Nil)
  ultimately show ?thesis by (auto simp add: enc_payload_inject simp del: enc_fields_simps)
qed

lemma enc_coin_inject:
  assumes "fits (coin_fields c)" "enc_fields (coin_fields c) = enc_fields (coin_fields c')"
  shows "c = c'"
  using assms coin_fields_inject enc_payload_inject by simp

lemma enc_coins_inject:
  assumes "\<forall>c\<in>set cs. fits (coin_fields c)"
    and "map (\<lambda>c. enc_fields (coin_fields c)) cs = map (\<lambda>c. enc_fields (coin_fields c)) cs'"
  shows "cs = cs'"
  using assms
proof (induction cs arbitrary: cs')
  case (Cons c cs)
  then obtain d ds where "cs' = d # ds" by (cases cs') auto
  with Cons show ?case using enc_coin_inject by auto
qed simp

lemma enc_fee_inject:
  assumes "fits (fee_fields f)" "enc_fields (fee_fields f) = enc_fields (fee_fields f')"
  shows "f = f'"
proof -
  have eq: "fee_fields f = fee_fields f'" using assms enc_payload_inject by simp
  have fit: "\<forall>c\<in>set (FeeAmount f). fits (coin_fields c)"
  proof
    fix c
    assume "c \<in> set (FeeAmount f)"
    then have "(1, LenDelim (enc_fields (coin_fields c))) \<in> set (fee_fields f)"
      by (auto simp add: fee_fields_def)
    with assms(1) show "fits (coin_fields c)" by (rule fits_payload)
  qed
  let ?rest = "\<lambda>f. num_field 2 (GasLimit f) @ str_field 3 (Payer f) @ str_field 4 (Granter f)"
  have "map (\<lambda>c. enc_fields (coin_fields c)) (FeeAmount f) =
        map (\<lambda>c. enc_fields (coin_fields c)) (FeeAmount f')"
    using arg_cong [OF eq, of "payloads_of 1"] by (simp add: fee_fields_def)
  with fit have amounts: "FeeAmount f = FeeAmount f'" by (rule enc_coins_inject)
  with eq have rest: "?rest f = ?rest f'" by (simp add: fee_fields_def)
  have "GasLimit f = GasLimit f'" using arg_cong [OF rest, of "num_of 2"] by (auto split: if_splits)
  moreover have "Payer f = Payer f'" "Granter f = Granter f'"
    using arg_cong [OF rest, of "str_of 3"] arg_cong [OF rest, of "str_of 4"]
    by (auto split: if_splits)
  ultimately show ?thesis using amounts by (cases f; cases f') simp
qed

lemma enc_signer_inject:
  assumes "fits (signer_fields s)" "enc_fields (signer_fields s) = enc_fields (signer_fields s')"
  shows "PubKeyTypeURL s = PubKeyTypeURL s' \<and> PubKey s = PubKey s' \<and> Sequence s = Sequence s'"
proof -
  have eq: "signer_fields s = signer_fields s'" using assms enc_payload_inject by simp
  have "fits (key_any_fields (PubKeyTypeURL s) (PubKey s))"
    using assms(1) by (rule fits_payload [where n = 1]) (simp add: signer_fields_def)
  moreover have "enc_fields (key_any_fields (PubKeyTypeURL s) (PubKey s)) =
      enc_fields (key_any_fields (PubKeyTypeURL s') (PubKey s'))"
    using arg_cong [OF eq, of "payload_of 1"] by (simp add: signer_fields_def del: enc_fields_simps)
  ultimately have "PubKeyTypeURL s = PubKeyTypeURL s' \<and> PubKey s = PubKey s'"
    by (rule key_any_inject)
  moreover have "Sequence s = Sequence s'"
    using arg_cong [OF eq, of "num_of 3"] by (simp add: signer_fields_def del: enc_fields_simps)
  ultimately show ?thesis by simp
qed

lemma enc_msg_inject:
  assumes "fits (msg_fields m)" "enc_fields (msg_fields m) = enc_fields (msg_fields m')"
  shows "same_msg m m'"
proof -
  have eq: "msg_fields m = msg_fields m'" using assms enc_payload_inject by simp
  have sub: "fits (description_fields (MsgDescription m))" "fits (commission_fields (MsgCommission m))"
    "fits (key_any_fields (ConsensusPubKeyTypeURL m) (ConsensusPubKey m))"
    "fits (coin_fields (MsgValue m))"
    using assms(1) by (auto simp add: msg_fields_def simp del: enc_fields_simps
        intro: fits_payload [where n = 1] fits_payload [where n = 2] fits_payload [where n = 6]
          fits_payload [where n = 7])
  have "MsgDescription m = MsgDescription m'"
    using arg_cong [OF eq, of "payload_of 1"] sub(1) description_fields_inject
    by (simp add: msg_fields_def enc_payload_inject del: enc_fields_simps)
  moreover have "same_rates (MsgCommission m) (MsgCommission m')"
    using arg_cong [OF eq, of "payload_of 2"] sub(2) commission_fields_inject
    by (simp add: msg_fields_def enc_payload_inject del: enc_fields_simps)
  moreover have "MsgMinSelfDelegation m = MsgMinSelfDelegation m'"
    "DelegatorAddress m = DelegatorAddress m'" "ValidatorAddress m = ValidatorAddress m'"
    using arg_cong [OF eq, of "str_of 3"] arg_cong [OF eq, of "str_of 4"]
      arg_cong [OF eq, of "str_of 5"]
    by (auto simp add: msg_fields_def simp del: enc_fields_simps split: if_splits)
  moreover have "ConsensusPubKeyTypeURL m = ConsensusPubKeyTypeURL m' \<and>
      ConsensusPubKey m = ConsensusPubKey m'"
    using arg_cong [OF eq, of "payload_of 6"] key_any_inject [OF sub(3)]
    by (simp add: msg_fields_def del: enc_fields_simps)
  moreover have "MsgValue m = MsgValue m'"
    using arg_cong [OF eq, of "payload_of 7"] enc_coin_inject [OF sub(4)]
    by (simp add: msg_fields_def del: enc_fields_simps)
  ultimately show ?thesis by (simp add: same_msg_def)
qed

lemma enc_body_inject:
  assumes "fits (body_fields g)" "enc_fields (body_fields g) = enc_fields (body_fields g')"
  shows "same_msg (Msg g) (Msg g') \<and> Memo g = Memo g' \<and> TimeoutHeight g = TimeoutHeight g'"
proof -
  let ?any = "\<lambda>g. any_fields MsgCreateValidatorTypeURL (enc_fields (msg_fields (Msg g)))"
  have eq: "body_fields g = body_fields g'" using assms enc_payload_inject by simp
  have fit: "fits (?any g)"
    using assms(1) by (rule fits_payload [where n = 1]) (simp add: body_fields_def)
  moreover have "enc_fields (?any g) = enc_fields (?any g')"
    using arg_cong [OF eq, of "payload_of 1"] by (simp add: body_fields_def del: enc_fields_simps)
  ultimately have "enc_fields (msg_fields (Msg g)) = enc_fields (msg_fields (Msg g'))"
    using any_fields_inject enc_payload_inject by simp
  moreover have "fits (msg_fields (Msg g))"
    using fit by (rule fits_payload [where n = 2]) (simp add: any_fields_def msg_fields_def)
  ultimately have "same_msg (Msg g) (Msg g')" by (intro enc_msg_inject)
  moreover have "Memo g = Memo g'" "TimeoutHeight g = TimeoutHeight g'"
    using arg_cong [OF eq, of "str_of 2"] arg_cong [OF eq, of "num_of 3"]
    by (auto simp add: body_fields_def simp del: enc_fields_simps split: if_splits)
  ultimately show ?thesis by simp
qed

lemma sign_doc_inject:
  assumes "fits (sign_doc_fields g c n)"
    and "enc_fields (sign_doc_fields g c n) = enc_fields (sign_doc_fields g' c' n')"
  shows "c = c' \<and> n = n' \<and> same_signed g g'"
proof -
  have eq: "sign_doc_fields g c n = sign_doc_fields g' c' n'" using assms enc_payload_inject by simp
  have sub: "fits (body_fields g)" "fits (auth_fields g)"
    using assms(1) by (auto simp add: sign_doc_fields_def simp del: enc_fields_simps
        intro: fits_payload [where n = 1] fits_payload [where n = 2])
  then have sub2: "fits (signer_fields (Signer g))" "fits (fee_fields (TxFee g))"
    by (auto simp add: auth_fields_def simp del: enc_fields_simps
        intro: fits_payload [where n = 1] fits_payload [where n = 2])
  have body: "enc_fields (body_fields g) = enc_fields (body_fields g')"
    and auth: "enc_fields (auth_fields g) = enc_fields (auth_fields g')"
    using arg_cong [OF eq, of "payload_of 1"] arg_cong [OF eq, of "payload_of 2"]
    by (simp_all add: sign_doc_fields_def del: enc_fields_simps)
  have eq2: "auth_fields g = auth_fields g'" using auth sub(2) enc_payload_inject by simp
  then have "enc_fields (signer_fields (Signer g)) = enc_fields (signer_fields (Signer g'))"
    and "enc_fields (fee_fields (TxFee g)) = enc_fields (fee_fields (TxFee g'))"
    by (simp_all add: auth_fields_def del: enc_fields_simps)
  with sub2 enc_signer_inject enc_fee_inject enc_body_inject [OF sub(1) body]
  have "same_signed g g'" unfolding same_signed_def by blast
  moreover have "c = c'" "n = n'"
    using arg_cong [OF eq, of "str_of 3"] arg_cong [OF eq, of "num_of 4"]
    by (auto simp add: sign_doc_fields_def simp del: enc_fields_simps split: if_splits)
  ultimately show ?thesis by simp
qed

lemma sign_doc_same:
  assumes "same_signed g g'"
  shows "sign_doc_fields g c n = sign_doc_fields g' c n"
  using assms
  by (simp add: same_signed_def same_msg_def sign_doc_fields_def body_fields_def auth_fields_def
      msg_fields_def signer_fields_def flip: commission_fields_inject)

end
