(* ===== verification/Invariants.thy ===== *)
theory Invariants
  imports Address SignDoc
begin

text \<open>
  \<open>gentxvalidate/invariants.go\<close>: one function per invariant, each returning a result. Decimals
  are compared as scaled integers. Every check is characterised by the condition under which it
  passes, and by the reason it gives otherwise.
\<close>

section \<open>Scaled decimals\<close>

definition decOne :: int where
  "decOne = the (big_SetString ''1000000000000000000'')"

text \<open>
  \<open>SetString\<close> cannot fail on the digits \<open>legacyDecWire\<close> returns (\<open>decValue_digits\<close>), so the
  pointer it leaves is never nil.
\<close>

definition decValue :: "string \<Rightarrow> string \<Rightarrow> gerr + int" where
  "decValue s field =
     bindE (legacyDecWire s field) (\<lambda>w. Inr (the (big_SetString (string_of w))))"

lemma decValue_digits:
  "legacyDecWire s field = Inr w \<Longrightarrow> big_SetString (string_of w) = Some (int (dec_scaled s))"
  by (simp add: legacyDecWire_spec big_SetString_digits)

lemma decValue_spec: "decValue s field = Inr n \<longleftrightarrow> dec_text s \<and> n = int (dec_scaled s)"
  unfolding decValue_def bindE_eq_Inr
  by (auto simp add: legacyDecWire_spec big_SetString_digits)

lemma decValue_cases:
  obtains (dec) "dec_text s" "decValue s field = Inr (int (dec_scaled s))"
  | (err) e where "\<not> dec_text s" "decValue s field = Inl e"
  by (metis decValue_spec sum.exhaust)

lemma decOne_eq: "decOne = 10 ^ 18"
  by (simp add: decOne_def isDigit_def digits_val_def)

section \<open>The checks\<close>

definition CheckChainID :: "string \<Rightarrow> Params \<Rightarrow> Result" where
  "CheckChainID claimed p =
     (if ChainID p = [] then fail InvChainID ChainIDNotSet
      else if claimed \<noteq> ChainID p then fail InvChainID (ChainIDMismatch claimed (ChainID p))
      else pass InvChainID)"

definition CheckBondDenom :: "ParsedGentx \<Rightarrow> Params \<Rightarrow> Result" where
  "CheckBondDenom g p =
     (if BondDenom p = [] then fail InvBondDenom BondDenomNotSet
      else if Denom (MsgValue (Msg g)) \<noteq> BondDenom p
      then fail InvBondDenom (DenomMismatch (Denom (MsgValue (Msg g))) (BondDenom p))
      else pass InvBondDenom)"

definition CheckSelfDelegation :: "ParsedGentx \<Rightarrow> Params \<Rightarrow> Result" where
  "CheckSelfDelegation g p =
     (if ParamMinSelfDelegation p = [] then pass InvSelfDelegation
      else
        case big_SetString (ParamMinSelfDelegation p) of
          None \<Rightarrow> fail InvSelfDelegation (InvalidFloor (ParamMinSelfDelegation p))
        | Some floor \<Rightarrow>
            if floor < 0 then fail InvSelfDelegation (InvalidFloor (ParamMinSelfDelegation p))
            else
              (case big_SetString (Amount (MsgValue (Msg g))) of
                 None \<Rightarrow> fail InvSelfDelegation (InvalidAmount (Amount (MsgValue (Msg g))))
               | Some amount \<Rightarrow>
                   if amount < 0
                   then fail InvSelfDelegation (InvalidAmount (Amount (MsgValue (Msg g))))
                   else if amount < floor
                   then fail InvSelfDelegation
                     (BelowFloor (Amount (MsgValue (Msg g))) (ParamMinSelfDelegation p))
                   else pass InvSelfDelegation))"

definition CheckCommissionConsistency :: "ParsedGentx \<Rightarrow> Result" where
  "CheckCommissionConsistency g =
     (let c = MsgCommission (Msg g) in
      case decValue (Rate c) ''commission.rate'' of
        Inl e \<Rightarrow> fail InvCommissionConsistency (ReasonErr e)
      | Inr rate \<Rightarrow>
      case decValue (MaxRate c) ''commission.max_rate'' of
        Inl e \<Rightarrow> fail InvCommissionConsistency (ReasonErr e)
      | Inr maxRate \<Rightarrow>
        if maxRate < rate
        then fail InvCommissionConsistency (RateAboveMax (Rate c) (MaxRate c))
        else if decOne < maxRate
        then fail InvCommissionConsistency (MaxRateAboveOne (MaxRate c))
        else pass InvCommissionConsistency)"

definition CheckCommissionChangeRate :: "ParsedGentx \<Rightarrow> Result" where
  "CheckCommissionChangeRate g =
     (let c = MsgCommission (Msg g) in
      case decValue (MaxChangeRate c) ''commission.max_change_rate'' of
        Inl e \<Rightarrow> fail InvCommissionChangeRate (ReasonErr e)
      | Inr maxChange \<Rightarrow>
      case decValue (MaxRate c) ''commission.max_rate'' of
        Inl e \<Rightarrow> fail InvCommissionChangeRate (ReasonErr e)
      | Inr maxRate \<Rightarrow>
        if maxRate < maxChange
        then fail InvCommissionChangeRate (ChangeRateAboveMax (MaxChangeRate c) (MaxRate c))
        else pass InvCommissionChangeRate)"

text \<open>
  The three bounds are checked in order; each returns from the function when it fails, which is
  a \<open>Some\<close> here.
\<close>

definition boundFloor :: "CommissionRates \<Rightarrow> Params \<Rightarrow> int \<Rightarrow> Result option" where
  "boundFloor c p rate =
     (if MinCommissionRate p = [] then None
      else case decValue (MinCommissionRate p) ''params.min_commission_rate'' of
        Inl e \<Rightarrow> Some (fail InvCommissionBounds (ReasonErr e))
      | Inr floor \<Rightarrow>
          if rate < floor
          then Some (fail InvCommissionBounds (RateBelowFloor (Rate c) (MinCommissionRate p)))
          else None)"

definition boundCeiling :: "CommissionRates \<Rightarrow> Params \<Rightarrow> int \<Rightarrow> Result option" where
  "boundCeiling c p rate =
     (if MaxCommissionRate p = [] then None
      else case decValue (MaxCommissionRate p) ''params.max_commission_rate'' of
        Inl e \<Rightarrow> Some (fail InvCommissionBounds (ReasonErr e))
      | Inr ceil \<Rightarrow>
          if ceil < rate
          then Some (fail InvCommissionBounds (RateAboveCeiling (Rate c) (MaxCommissionRate p)))
          else case decValue (MaxRate c) ''commission.max_rate'' of
            Inl e \<Rightarrow> Some (fail InvCommissionBounds (ReasonErr e))
          | Inr maxRate \<Rightarrow>
              if ceil < maxRate
              then Some (fail InvCommissionBounds
                (MaxRateAboveCeiling (MaxRate c) (MaxCommissionRate p)))
              else None)"

definition boundChange :: "CommissionRates \<Rightarrow> Params \<Rightarrow> Result option" where
  "boundChange c p =
     (if MaxCommissionChangeRate p = [] then None
      else case decValue (MaxCommissionChangeRate p) ''params.max_commission_change_rate'' of
        Inl e \<Rightarrow> Some (fail InvCommissionBounds (ReasonErr e))
      | Inr ceil \<Rightarrow>
          case decValue (MaxChangeRate c) ''commission.max_change_rate'' of
            Inl e \<Rightarrow> Some (fail InvCommissionBounds (ReasonErr e))
          | Inr maxChange \<Rightarrow>
              if ceil < maxChange
              then Some (fail InvCommissionBounds
                (ChangeRateAboveCeiling (MaxChangeRate c) (MaxCommissionChangeRate p)))
              else None)"

definition CheckCommissionBounds :: "ParsedGentx \<Rightarrow> Params \<Rightarrow> Result" where
  "CheckCommissionBounds g p =
     (let c = MsgCommission (Msg g) in
      case decValue (Rate c) ''commission.rate'' of
        Inl e \<Rightarrow> fail InvCommissionBounds (ReasonErr e)
      | Inr rate \<Rightarrow>
      case boundFloor c p rate of Some r \<Rightarrow> r | None \<Rightarrow>
      case boundCeiling c p rate of Some r \<Rightarrow> r | None \<Rightarrow>
      case boundChange c p of Some r \<Rightarrow> r | None \<Rightarrow> pass InvCommissionBounds)"

definition CheckMoniker :: "ParsedGentx \<Rightarrow> Params \<Rightarrow> Result" where
  "CheckMoniker g p =
     (let m = Moniker (MsgDescription (Msg g)) in
      if m = [] then fail InvMoniker MonikerEmpty
      else if maxMonikerLen p < int (length m)
      then fail InvMoniker (MonikerTooLong (length m) (maxMonikerLen p))
      else if \<not> utf8_valid m then fail InvMoniker MonikerNotUtf8
      else (case find IsControl (runes m) of
          Some r \<Rightarrow> fail InvMoniker (MonikerControl r)
        | None \<Rightarrow> pass InvMoniker))"

definition CheckOperatorAddress ::
  "('pk, 'sc) externals \<Rightarrow> ParsedGentx \<Rightarrow> Params \<Rightarrow> Result" where
  "CheckOperatorAddress X g p =
     (if Bech32Prefix p = [] then fail InvOperatorAddress PrefixNotSet
      else case signerAddressBytes X (Signer g) of
        Inl e \<Rightarrow> fail InvOperatorAddress (CannotDerive e)
      | Inr derived \<Rightarrow>
      case decodeBech32Address X (ValidatorAddress (Msg g)) (Bech32Prefix p @ ''valoper'') of
        Inl e \<Rightarrow> fail InvOperatorAddress (ValidatorAddressErr e)
      | Inr valBytes \<Rightarrow>
        if valBytes \<noteq> derived then fail InvOperatorAddress ValidatorNotDerived
        else if DelegatorAddress (Msg g) \<noteq> [] then
          (case decodeBech32Address X (DelegatorAddress (Msg g)) (Bech32Prefix p) of
             Inl e \<Rightarrow> fail InvOperatorAddress (DelegatorAddressErr e)
           | Inr delBytes \<Rightarrow>
               if delBytes \<noteq> derived then fail InvOperatorAddress DelegatorNotDerived
               else pass InvOperatorAddress)
        else pass InvOperatorAddress)"

definition ed25519PubKeyTypeSuffix :: string where
  "ed25519PubKeyTypeSuffix = ''ed25519.PubKey''"

definition ed25519PubKeySize :: nat where
  "ed25519PubKeySize = 32"

definition CheckConsensusPubKey :: "ParsedGentx \<Rightarrow> Result" where
  "CheckConsensusPubKey g =
     (if \<not> HasSuffix (ConsensusPubKeyTypeURL (Msg g)) ed25519PubKeyTypeSuffix
      then fail InvConsensusPubKey (ConsensusKeyType (ConsensusPubKeyTypeURL (Msg g)))
      else if length (ConsensusPubKey (Msg g)) \<noteq> ed25519PubKeySize
      then fail InvConsensusPubKey (ConsensusKeyLen (length (ConsensusPubKey (Msg g))))
      else pass InvConsensusPubKey)"

section \<open>When the checks pass\<close>

text \<open>
  The conditions the checks stand for, over the values of the fields: rates as multiples of
  \<open>10 ^ -18\<close>, the moniker as code points, addresses as the 20 bytes they decode to.
\<close>

definition bond_denom_ok :: "ParsedGentx \<Rightarrow> Params \<Rightarrow> bool" where
  "bond_denom_ok g p \<longleftrightarrow> BondDenom p \<noteq> [] \<and> Denom (MsgValue (Msg g)) = BondDenom p"

definition self_delegation_ok :: "ParsedGentx \<Rightarrow> Params \<Rightarrow> bool" where
  "self_delegation_ok g p \<longleftrightarrow> ParamMinSelfDelegation p = [] \<or>
     (\<exists>floor amount. big_SetString (ParamMinSelfDelegation p) = Some floor \<and>
        big_SetString (Amount (MsgValue (Msg g))) = Some amount \<and> 0 \<le> floor \<and> floor \<le> amount)"

definition commission_consistent :: "CommissionRates \<Rightarrow> bool" where
  "commission_consistent c \<longleftrightarrow> dec_text (Rate c) \<and> dec_text (MaxRate c) \<and>
     dec_scaled (Rate c) \<le> dec_scaled (MaxRate c) \<and> dec_scaled (MaxRate c) \<le> 10 ^ 18"

definition change_rate_ok :: "CommissionRates \<Rightarrow> bool" where
  "change_rate_ok c \<longleftrightarrow> dec_text (MaxChangeRate c) \<and> dec_text (MaxRate c) \<and>
     dec_scaled (MaxChangeRate c) \<le> dec_scaled (MaxRate c)"

definition commission_bounds_ok :: "CommissionRates \<Rightarrow> Params \<Rightarrow> bool" where
  "commission_bounds_ok c p \<longleftrightarrow> dec_text (Rate c) \<and>
     (MinCommissionRate p \<noteq> [] \<longrightarrow>
        dec_text (MinCommissionRate p) \<and> dec_scaled (MinCommissionRate p) \<le> dec_scaled (Rate c)) \<and>
     (MaxCommissionRate p \<noteq> [] \<longrightarrow>
        dec_text (MaxCommissionRate p) \<and> dec_scaled (Rate c) \<le> dec_scaled (MaxCommissionRate p) \<and>
        dec_text (MaxRate c) \<and> dec_scaled (MaxRate c) \<le> dec_scaled (MaxCommissionRate p)) \<and>
     (MaxCommissionChangeRate p \<noteq> [] \<longrightarrow>
        dec_text (MaxCommissionChangeRate p) \<and> dec_text (MaxChangeRate c) \<and>
        dec_scaled (MaxChangeRate c) \<le> dec_scaled (MaxCommissionChangeRate p))"

definition moniker_ok :: "string \<Rightarrow> Params \<Rightarrow> bool" where
  "moniker_ok m p \<longleftrightarrow> m \<noteq> [] \<and> int (length m) \<le> maxMonikerLen p \<and>
     (\<exists>rs. (\<forall>r\<in>set rs. scalar r \<and> \<not> IsControl r) \<and> m = utf8_text rs)"

definition operator_ok :: "('pk, 'sc) externals \<Rightarrow> ParsedGentx \<Rightarrow> Params \<Rightarrow> bool" where
  "operator_ok X g p \<longleftrightarrow> Bech32Prefix p \<noteq> [] \<and>
     (\<exists>account. signerAddressBytes X (Signer g) = Inr account \<and>
        decodeBech32Address X (ValidatorAddress (Msg g)) (Bech32Prefix p @ ''valoper'') = Inr account \<and>
        (DelegatorAddress (Msg g) = [] \<or>
         decodeBech32Address X (DelegatorAddress (Msg g)) (Bech32Prefix p) = Inr account))"

definition consensus_key_ok :: "ParsedGentx \<Rightarrow> bool" where
  "consensus_key_ok g \<longleftrightarrow> (\<exists>u. ConsensusPubKeyTypeURL (Msg g) = u @ ''ed25519.PubKey'') \<and>
     length (ConsensusPubKey (Msg g)) = 32"

lemma CheckBondDenom_OK: "OK (CheckBondDenom g p) \<longleftrightarrow> bond_denom_ok g p"
  by (simp add: CheckBondDenom_def bond_denom_ok_def)

lemma CheckSelfDelegation_OK: "OK (CheckSelfDelegation g p) \<longleftrightarrow> self_delegation_ok g p"
  by (auto simp add: CheckSelfDelegation_def self_delegation_ok_def split: option.split)

lemma CheckCommissionConsistency_OK:
  "OK (CheckCommissionConsistency g) \<longleftrightarrow> commission_consistent (MsgCommission (Msg g))"
proof -
  let ?c = "MsgCommission (Msg g)"
  show ?thesis
    by (rule decValue_cases [of "Rate ?c" "''commission.rate''"];
        rule decValue_cases [of "MaxRate ?c" "''commission.max_rate''"])
       (auto simp add: CheckCommissionConsistency_def commission_consistent_def Let_def decOne_eq)
qed

lemma CheckCommissionChangeRate_OK:
  "OK (CheckCommissionChangeRate g) \<longleftrightarrow> change_rate_ok (MsgCommission (Msg g))"
proof -
  let ?c = "MsgCommission (Msg g)"
  show ?thesis
    by (rule decValue_cases [of "MaxChangeRate ?c" "''commission.max_change_rate''"];
        rule decValue_cases [of "MaxRate ?c" "''commission.max_rate''"])
       (auto simp add: CheckCommissionChangeRate_def change_rate_ok_def Let_def)
qed

lemma boundFloor_None:
  "boundFloor c p (int r) = None \<longleftrightarrow> (MinCommissionRate p \<noteq> [] \<longrightarrow>
     dec_text (MinCommissionRate p) \<and> dec_scaled (MinCommissionRate p) \<le> r)"
  by (rule decValue_cases [of "MinCommissionRate p" "''params.min_commission_rate''"])
     (auto simp add: boundFloor_def)

lemma boundCeiling_None:
  "boundCeiling c p (int r) = None \<longleftrightarrow> (MaxCommissionRate p \<noteq> [] \<longrightarrow>
     dec_text (MaxCommissionRate p) \<and> r \<le> dec_scaled (MaxCommissionRate p) \<and>
     dec_text (MaxRate c) \<and> dec_scaled (MaxRate c) \<le> dec_scaled (MaxCommissionRate p))"
  by (rule decValue_cases [of "MaxCommissionRate p" "''params.max_commission_rate''"];
      rule decValue_cases [of "MaxRate c" "''commission.max_rate''"])
     (auto simp add: boundCeiling_def)

lemma boundChange_None:
  "boundChange c p = None \<longleftrightarrow> (MaxCommissionChangeRate p \<noteq> [] \<longrightarrow>
     dec_text (MaxCommissionChangeRate p) \<and> dec_text (MaxChangeRate c) \<and>
     dec_scaled (MaxChangeRate c) \<le> dec_scaled (MaxCommissionChangeRate p))"
  by (rule decValue_cases [of "MaxCommissionChangeRate p" "''params.max_commission_change_rate''"];
      rule decValue_cases [of "MaxChangeRate c" "''commission.max_change_rate''"])
     (auto simp add: boundChange_def)

lemma bound_Some_fails:
  "boundFloor c p r = Some x \<Longrightarrow> \<not> OK x" "boundCeiling c p r = Some x \<Longrightarrow> \<not> OK x"
  "boundChange c p = Some x \<Longrightarrow> \<not> OK x"
  by (auto simp add: boundFloor_def boundCeiling_def boundChange_def split: if_splits sum.splits)

lemma CheckCommissionBounds_OK:
  "OK (CheckCommissionBounds g p) \<longleftrightarrow> commission_bounds_ok (MsgCommission (Msg g)) p"
proof -
  let ?c = "MsgCommission (Msg g)"
  have "OK (CheckCommissionBounds g p) \<longleftrightarrow> dec_text (Rate ?c) \<and>
      boundFloor ?c p (int (dec_scaled (Rate ?c))) = None \<and>
      boundCeiling ?c p (int (dec_scaled (Rate ?c))) = None \<and> boundChange ?c p = None"
    by (rule decValue_cases [of "Rate ?c" "''commission.rate''"])
       (auto simp add: CheckCommissionBounds_def Let_def bound_Some_fails split: option.split)
  then show ?thesis
    by (simp only: boundFloor_None boundCeiling_None boundChange_None commission_bounds_ok_def)
qed

lemma CheckMoniker_OK: "OK (CheckMoniker g p) \<longleftrightarrow> moniker_ok (Moniker (MsgDescription (Msg g))) p"
proof -
  let ?m = "Moniker (MsgDescription (Msg g))"
  have "utf8_valid ?m \<and> find IsControl (runes ?m) = None \<longleftrightarrow>
      (\<exists>rs. (\<forall>r\<in>set rs. scalar r \<and> \<not> IsControl r) \<and> ?m = utf8_text rs)" (is "?l \<longleftrightarrow> ?r")
  proof
    assume ?l
    then show ?r using utf8_valid_runes [of ?m] by (metis find_None_iff)
  next
    assume ?r
    then obtain rs where rs: "\<forall>r\<in>set rs. scalar r \<and> \<not> IsControl r" "?m = utf8_text rs" by auto
    then have "utf8_valid ?m" "runes ?m = rs" by (auto simp add: utf8_valid_text runes_utf8_text)
    with rs(1) show ?l by (auto simp add: find_None_iff)
  qed
  then show ?thesis
    by (auto simp add: CheckMoniker_def moniker_ok_def Let_def split: option.split)
qed

lemma CheckOperatorAddress_OK: "OK (CheckOperatorAddress X g p) \<longleftrightarrow> operator_ok X g p"
  by (auto simp add: CheckOperatorAddress_def operator_ok_def split: sum.splits)

lemma CheckConsensusPubKey_OK: "OK (CheckConsensusPubKey g) \<longleftrightarrow> consensus_key_ok g"
  by (simp add: CheckConsensusPubKey_def consensus_key_ok_def HasSuffix_iff
      ed25519PubKeyTypeSuffix_def ed25519PubKeySize_def)

lemmas Check_OK = CheckBondDenom_OK CheckSelfDelegation_OK CheckCommissionConsistency_OK
  CheckCommissionChangeRate_OK CheckCommissionBounds_OK CheckMoniker_OK CheckOperatorAddress_OK
  CheckConsensusPubKey_OK

text \<open>Every check reports under its own identifier.\<close>

lemma boundX_Invariant:
  "boundFloor c p r = Some x \<Longrightarrow> Invariant x = InvCommissionBounds"
  "boundCeiling c p r = Some x \<Longrightarrow> Invariant x = InvCommissionBounds"
  "boundChange c p = Some x \<Longrightarrow> Invariant x = InvCommissionBounds"
  by (auto simp add: boundFloor_def boundCeiling_def boundChange_def split: if_splits sum.splits)

lemma Check_Invariant:
  "Invariant (CheckBondDenom g p) = InvBondDenom"
  "Invariant (CheckSelfDelegation g p) = InvSelfDelegation"
  "Invariant (CheckCommissionConsistency g) = InvCommissionConsistency"
  "Invariant (CheckCommissionChangeRate g) = InvCommissionChangeRate"
  "Invariant (CheckCommissionBounds g p) = InvCommissionBounds"
  "Invariant (CheckMoniker g p) = InvMoniker"
  "Invariant (CheckOperatorAddress X g p) = InvOperatorAddress"
  "Invariant (CheckConsensusPubKey g) = InvConsensusPubKey"
  by (simp_all add: CheckBondDenom_def CheckSelfDelegation_def CheckCommissionConsistency_def
      CheckCommissionChangeRate_def CheckCommissionBounds_def CheckMoniker_def
      CheckOperatorAddress_def CheckConsensusPubKey_def Let_def boundX_Invariant
      split: option.split sum.split)

end
