(* ===== verification/Verify.thy ===== *)
theory Verify
  imports Keys SignDoc
begin

text \<open>
  \<open>VerifyDirect\<close> of \<open>gentxvalidate/verify.go\<close>: the signer gate, the \<open>SIGN_MODE_DIRECT\<close> sign
  bytes and the signature over them. It always returns; it accepts exactly the signatures that
  verify over the reconstructed bytes.
\<close>

definition VerifyDirect ::
  "('pk, 'sc) externals \<Rightarrow> ParsedGentx \<Rightarrow> string \<Rightarrow> uint64 \<Rightarrow> (gerr + bool) outcome" where
  "VerifyDirect X g chainID accountNumber =
     (case checkSingleSecpSigner g of
        Inl e \<Rightarrow> Ret (Inl e)
      | Inr _ \<Rightarrow>
          (case DirectSignBytes g chainID accountNumber of
             Inl e \<Rightarrow> Ret (Inl e)
           | Inr signBytes \<Rightarrow> verifySecpCompact X (PubKey (Signer g)) (Signature g) signBytes))"

text \<open>The single-key acceptance condition over given sign bytes.\<close>

definition single_signed :: "('pk, 'sc) externals \<Rightarrow> ParsedGentx \<Rightarrow> bytes \<Rightarrow> bool" where
  "single_signed X g m \<longleftrightarrow>
     PubKeyTypeURL (Signer g) = secp256k1PubKeyTypeURL \<and> length (PubKey (Signer g)) = 33 \<and>
     length (Signature g) = 64 \<and> secp_valid X (PubKey (Signer g)) (Signature g) m"

lemma VerifyDirect_returns: "VerifyDirect X g c n \<noteq> Panic"
proof (cases "checkSingleSecpSigner g")
  case (Inr u)
  then have "32 \<le> length (Signature g)" by (simp add: checkSingleSecpSigner_ok)
  with Inr show ?thesis
    by (auto simp add: VerifyDirect_def verifySecpCompact_returns split: sum.split)
qed (simp add: VerifyDirect_def)

lemma VerifyDirect_True:
  "VerifyDirect X g c n = Ret (Inr True) \<longleftrightarrow>
     (\<exists>b. DirectSignBytes g c n = Inr b \<and> single_signed X g b)"
proof (cases "checkSingleSecpSigner g")
  case (Inl e)
  then have "\<not> single_signed X g b" for b
    using checkSingleSecpSigner_ok [of g "()"] by (auto simp add: single_signed_def)
  with Inl show ?thesis by (simp add: VerifyDirect_def)
next
  case (Inr u)
  then have "32 \<le> length (Signature g)"
    and gate: "PubKeyTypeURL (Signer g) = secp256k1PubKeyTypeURL" "length (PubKey (Signer g)) = 33"
      "length (Signature g) = 64"
    by (simp_all add: checkSingleSecpSigner_ok)
  then have "verifySecpCompact X (PubKey (Signer g)) (Signature g) b = Ret (Inr True) \<longleftrightarrow>
      single_signed X g b" for b
    by (simp add: verifySecpCompact_True single_signed_def)
  with Inr show ?thesis by (cases "DirectSignBytes g c n") (simp_all add: VerifyDirect_def)
qed

end
