(* ===== verification/GoJson.thy ===== *)
theory GoJson
  imports GoUtf8
begin

text \<open>
  The reading half of \<open>encoding/json\<close>. A document is parsed into a tree whose array elements
  and object values keep their source text, since the program stores some of them as
  \<open>json.RawMessage\<close>. Strings are unquoted as the package does it: escapes, surrogate pairs, and
  U+FFFD for what is not valid UTF-8. Containers nest at most 10000 deep.

  The loops over elements and members carry fuel; one more than the length of the text is
  enough (\<open>elems_fuel\<close>, \<open>members_fuel\<close>), because a value consumes at least a character.
\<close>

section \<open>Trees\<close>

datatype json =
    JNull
  | JBool bool
  | JNum string
  | JStr string
  | JArr "(string \<times> json) list"
  | JObj "(string \<times> string \<times> json) list"

section \<open>Tokens\<close>

definition is_space :: "char \<Rightarrow> bool" where
  "is_space c \<longleftrightarrow> c = CHR '' '' \<or> c = CHR 0x09 \<or> c = CHR 0x0A \<or> c = CHR 0x0D"

definition skip_ws :: "string \<Rightarrow> string" where
  "skip_ws s = dropWhile is_space s"

definition hex_val :: "char \<Rightarrow> nat option" where
  "hex_val c =
     (let n = ord_of c in
      if 48 \<le> n \<and> n \<le> 57 then Some (n - 48) else if 97 \<le> n \<and> n \<le> 102 then Some (n - 87)
      else if 65 \<le> n \<and> n \<le> 70 then Some (n - 55) else None)"

fun hex4 :: "string \<Rightarrow> (nat \<times> string) option" where
  "hex4 (a # b # c # d # s) =
     (case (hex_val a, hex_val b, hex_val c, hex_val d) of
        (Some w, Some x, Some y, Some z) \<Rightarrow> Some (w * 4096 + x * 256 + y * 16 + z, s)
      | _ \<Rightarrow> None)"
| "hex4 _ = None"

definition esc_val :: "char \<Rightarrow> char option" where
  "esc_val c =
     (if c = CHR ''\"'' \<or> c = CHR 0x5C \<or> c = CHR ''/'' then Some c
      else if c = CHR ''b'' then Some CHR 0x08 else if c = CHR ''f'' then Some CHR 0x0C
      else if c = CHR ''n'' then Some CHR 0x0A else if c = CHR ''r'' then Some CHR 0x0D
      else if c = CHR ''t'' then Some CHR 0x09 else None)"

text \<open>
  The rune of \<open>\uXXXX\<close> with the text behind it: a high surrogate followed by an escaped low one
  is the pair's code point, any other surrogate is U+FFFD (by \<open>encode_rune\<close>).
\<close>

definition high_surrogate :: "nat \<Rightarrow> bool" where
  "high_surrogate r \<longleftrightarrow> 55296 \<le> r \<and> r < 56320"

definition low_surrogate :: "nat \<Rightarrow> bool" where
  "low_surrogate r \<longleftrightarrow> 56320 \<le> r \<and> r < 57344"

fun pair_rune :: "nat \<Rightarrow> string \<Rightarrow> nat \<times> string" where
  "pair_rune r (a # b # s) =
     (if high_surrogate r \<and> a = CHR 0x5C \<and> b = CHR ''u'' then
        (case hex4 s of
           Some (r1, t) \<Rightarrow>
             if low_surrogate r1 then ((r - 55296) * 1024 + (r1 - 56320) + 65536, t)
             else (r, a # b # s)
         | None \<Rightarrow> (r, a # b # s))
      else (r, a # b # s))"
| "pair_rune r s = (r, s)"

lemma hex4_length: "hex4 s = Some (r, t) \<Longrightarrow> length t < length s"
  by (cases s rule: hex4.cases) (auto split: option.splits)

lemma pair_rune_length: "length (snd (pair_rune r s)) \<le> length s"
  by (cases "(r, s)" rule: pair_rune.cases) (auto split: option.split dest: hex4_length)

text \<open>
  One step inside a string: an escape, an ASCII character or a rune, as the text it stands for
  and what follows it.
\<close>

fun str_step :: "string \<Rightarrow> (string \<times> string) option" where
  "str_step [] = None"
| "str_step (c # s) =
     (if c = CHR 0x5C then
        (case s of
           [] \<Rightarrow> None
         | e # t \<Rightarrow>
             if e = CHR ''u'' then
               map_option (\<lambda>(r, t). (encode_rune (fst (pair_rune r t)), snd (pair_rune r t))) (hex4 t)
             else map_option (\<lambda>d. ([d], t)) (esc_val e))
      else if ord_of c < 32 then None
      else if ord_of c < 128 then Some ([c], s)
      else Some (encode_rune (fst (decode_rune (c # s))), drop (snd (decode_rune (c # s))) (c # s)))"

lemma drop_rune_length: "length (drop (snd (decode_rune (c # s))) (c # s)) < Suc (length s)"
  using decode_rune_width_snd [of "c # s"] by (simp del: decode_rune.simps)

lemma str_step_length:
  assumes "str_step s = Some (d, t)"
  shows "length t < length s"
proof (cases s)
  case Nil
  with assms show ?thesis by simp
next
  case (Cons c s')
  show ?thesis
  proof (cases "c = CHR 0x5C")
    case True
    with assms Cons obtain e r where s': "s' = e # r" by (cases s') auto
    have "length (snd (pair_rune w x)) < length r" if "hex4 r = Some (w, x)" for w x
      using hex4_length [OF that] pair_rune_length [of w x] by simp
    then show ?thesis
      using assms Cons True s' by (auto split: if_splits simp: less_Suc_eq)
  next
    case False
    then show ?thesis
      using assms Cons drop_rune_length [of c s']
      by (auto simp del: decode_rune.simps drop_Cons' split: if_splits)
  qed
qed

text \<open>A string from behind its opening quote: its unquoted text and what follows the closing one.\<close>

function pstr :: "string \<Rightarrow> (string \<times> string) option" where
  "pstr s =
     (case s of
        [] \<Rightarrow> None
      | c # r \<Rightarrow>
          if c = CHR ''\"'' then Some ([], r)
          else
            (case str_step s of
               None \<Rightarrow> None
             | Some (d, t) \<Rightarrow> map_option (\<lambda>(u, v). (d @ u, v)) (pstr t)))"
  by pat_completeness auto

termination pstr
proof (relation "measure length", simp)
  fix s :: string and x21 x22 x2 x y
  assume "str_step s = Some x2" "(x, y) = x2"
  then show "(y, s) \<in> measure length" using str_step_length [of s x y] by simp
qed

declare pstr.simps [simp del] decode_rune.simps [simp del] str_step.simps(2) [simp del]

lemma pstr_cases:
  assumes "pstr s = Some (u, t)"
  obtains "s = CHR ''\"'' # t" "u = []"
  | d r v where "str_step s = Some (d, r)" "pstr r = Some (v, t)" "u = d @ v"
  using assms by (subst (asm) pstr.simps) (auto split: list.splits if_splits option.splits)

lemma pstr_length: "pstr s = Some (u, t) \<Longrightarrow> length t < length s"
proof (induction "length s" arbitrary: s u rule: less_induct)
  case less
  from less.prems show ?case
    by (rule pstr_cases) (use less.hyps str_step_length less_trans in fastforce)+
qed

section \<open>Numbers\<close>

text \<open>The three parts of a number; each takes the digits it can and gives the rest.\<close>

fun pint :: "string \<Rightarrow> (string \<times> string) option" where
  "pint [] = None"
| "pint (c # s) =
     (if c = CHR ''0'' then Some ([c], s)
      else if isDigit c then Some (c # takeWhile isDigit s, dropWhile isDigit s)
      else None)"

fun pfrac :: "string \<Rightarrow> (string \<times> string) option" where
  "pfrac [] = Some ([], [])"
| "pfrac (c # s) =
     (if c = CHR ''.'' then
        (if takeWhile isDigit s = [] then None
         else Some (c # takeWhile isDigit s, dropWhile isDigit s))
      else Some ([], c # s))"

fun psign :: "string \<Rightarrow> string \<times> string" where
  "psign [] = ([], [])"
| "psign (c # s) = (if c = CHR ''+'' \<or> c = CHR ''-'' then ([c], s) else ([], c # s))"

fun pexp :: "string \<Rightarrow> (string \<times> string) option" where
  "pexp [] = Some ([], [])"
| "pexp (c # s) =
     (if c = CHR ''e'' \<or> c = CHR ''E'' then
        (let (sg, t) = psign s in
         if takeWhile isDigit t = [] then None
         else Some (c # sg @ takeWhile isDigit t, dropWhile isDigit t))
      else Some ([], c # s))"

fun pminus :: "string \<Rightarrow> string \<times> string" where
  "pminus [] = ([], [])"
| "pminus (c # s) = (if c = CHR ''-'' then ([c], s) else ([], c # s))"

definition pnum :: "string \<Rightarrow> (string \<times> string) option" where
  "pnum s =
     (let (m, s) = pminus s in
      case pint s of None \<Rightarrow> None | Some (i, s) \<Rightarrow>
      case pfrac s of None \<Rightarrow> None | Some (f, s) \<Rightarrow>
      case pexp s of None \<Rightarrow> None | Some (e, s) \<Rightarrow> Some (m @ i @ f @ e, s))"

lemma pint_append: "pint s = Some (i, t) \<Longrightarrow> s = i @ t \<and> i \<noteq> []"
  by (cases s) (auto split: if_splits)

lemma pfrac_append: "pfrac s = Some (f, t) \<Longrightarrow> s = f @ t"
  by (cases s) (auto split: if_splits)

lemma psign_append: "psign s = (sg, t) \<Longrightarrow> s = sg @ t"
  by (cases s) (auto split: if_splits)

lemma pexp_append: "pexp s = Some (e, t) \<Longrightarrow> s = e @ t"
  by (cases s) (auto dest!: psign_append split: if_splits prod.splits)

lemma pnum_append: "pnum s = Some (n, t) \<Longrightarrow> s = n @ t \<and> n \<noteq> []"
  by (cases s) (auto simp add: pnum_def Let_def simp del: pint.simps
      dest!: pint_append pfrac_append pexp_append split: option.splits prod.splits if_splits)

lemma pnum_eq:
  "pnum s = Some (n, t) \<longleftrightarrow>
     (\<exists>i a f b e. pint (snd (pminus s)) = Some (i, a) \<and> pfrac a = Some (f, b) \<and>
        pexp b = Some (e, t) \<and> n = fst (pminus s) @ i @ f @ e)"
  by (simp add: pnum_def Let_def split: option.split prod.split) blast

section \<open>Strings are valid UTF-8\<close>

lemma esc_val_ascii: "esc_val e = Some d \<Longrightarrow> ord_of d < 128"
  by (auto simp add: esc_val_def split: if_splits)

lemma utf8_valid_char: "ord_of c < 128 \<Longrightarrow> utf8_valid [c]"
  by (rule utf8_valid_ascii) simp

lemma str_step_utf8: "str_step s = Some (d, t) \<Longrightarrow> utf8_valid d"
  by (cases s) (auto simp add: str_step.simps(2) utf8_valid_char split: if_splits list.splits
      dest!: esc_val_ascii)

lemma pstr_utf8: "pstr s = Some (u, t) \<Longrightarrow> utf8_valid u"
proof (induction "length s" arbitrary: s u rule: less_induct)
  case less
  from less.prems show ?case
  proof (rule pstr_cases)
    fix d r v
    assume r: "str_step s = Some (d, r)" "pstr r = Some (v, t)" "u = d @ v"
    then have "utf8_valid v" using less.hyps str_step_length by blast
    with r show "utf8_valid u" by (simp add: utf8_valid_append str_step_utf8)
  qed simp
qed

section \<open>Values\<close>

text \<open>A literal word, if the text starts with it.\<close>

fun pword :: "string \<Rightarrow> 'a \<Rightarrow> string \<Rightarrow> ('a \<times> string) option" where
  "pword [] v s = Some (v, s)"
| "pword (w # ws) v (c # s) = (if c = w then pword ws v s else None)"
| "pword (w # ws) v [] = None"

definition pscalar :: "string \<Rightarrow> (json \<times> string) option" where
  "pscalar s =
     (case s of
        [] \<Rightarrow> None
      | c # t \<Rightarrow>
          if c = CHR ''\"'' then map_option (\<lambda>(u, r). (JStr u, r)) (pstr t)
          else if c = CHR ''t'' then pword ''true'' (JBool True) s
          else if c = CHR ''f'' then pword ''false'' (JBool False) s
          else if c = CHR ''n'' then pword ''null'' JNull s
          else map_option (\<lambda>(n, r). (JNum n, r)) (pnum s))"

text \<open>The source text between two positions.\<close>

definition raw_text :: "string \<Rightarrow> string \<Rightarrow> string" where
  "raw_text s r = take (length s - length r) s"

type_synonym parser = "string \<Rightarrow> (json \<times> string) option"

text \<open>The elements of an array, from the start of one.\<close>

fun elems :: "nat \<Rightarrow> parser \<Rightarrow> string \<Rightarrow> ((string \<times> json) list \<times> string) option" where
  "elems 0 pv s = None"
| "elems (Suc n) pv s =
     (let s = skip_ws s in
      case pv s of
        None \<Rightarrow> None
      | Some (v, r) \<Rightarrow>
          (case skip_ws r of
             [] \<Rightarrow> None
           | c # t \<Rightarrow>
               if c = CHR '','' then
                 map_option (\<lambda>(vs, t). ((raw_text s r, v) # vs, t)) (elems n pv t)
               else if c = CHR '']'' then Some ([(raw_text s r, v)], t)
               else None))"

definition parray :: "parser \<Rightarrow> string \<Rightarrow> (json \<times> string) option" where
  "parray pv s =
     (case skip_ws s of
        [] \<Rightarrow> None
      | c # t \<Rightarrow>
          if c = CHR '']'' then Some (JArr [], t)
          else map_option (\<lambda>(vs, t). (JArr vs, t)) (elems (Suc (length s)) pv (c # t)))"

text \<open>A key and its colon.\<close>

definition pkey :: "string \<Rightarrow> (string \<times> string) option" where
  "pkey s =
     (case skip_ws s of
        [] \<Rightarrow> None
      | c # t \<Rightarrow>
          if c \<noteq> CHR ''\"'' then None
          else
            (case pstr t of
               None \<Rightarrow> None
             | Some (k, r) \<Rightarrow>
                 (case skip_ws r of
                    [] \<Rightarrow> None
                  | c # t \<Rightarrow> if c = CHR '':'' then Some (k, t) else None)))"

fun members :: "nat \<Rightarrow> parser \<Rightarrow> string \<Rightarrow> ((string \<times> string \<times> json) list \<times> string) option" where
  "members 0 pv s = None"
| "members (Suc n) pv s =
     (case pkey s of
        None \<Rightarrow> None
      | Some (k, s) \<Rightarrow>
          let s = skip_ws s in
          (case pv s of
             None \<Rightarrow> None
           | Some (v, r) \<Rightarrow>
               (case skip_ws r of
                  [] \<Rightarrow> None
                | c # t \<Rightarrow>
                    if c = CHR '','' then
                      map_option (\<lambda>(ms, t). ((k, raw_text s r, v) # ms, t)) (members n pv t)
                    else if c = CHR ''}'' then Some ([(k, raw_text s r, v)], t)
                    else None)))"

definition pobject :: "parser \<Rightarrow> string \<Rightarrow> (json \<times> string) option" where
  "pobject pv s =
     (case skip_ws s of
        [] \<Rightarrow> None
      | c # t \<Rightarrow>
          if c = CHR ''}'' then Some (JObj [], t)
          else map_option (\<lambda>(ms, t). (JObj ms, t)) (members (Suc (length s)) pv (c # t)))"

text \<open>The argument is the number of containers that may still be opened.\<close>

fun pcontainer :: "parser option \<Rightarrow> parser" where
  "pcontainer pv s =
     (case s of
        [] \<Rightarrow> None
      | c # t \<Rightarrow>
          if c = CHR ''['' then Option.bind pv (\<lambda>pv. parray pv t)
          else if c = CHR ''{'' then Option.bind pv (\<lambda>pv. pobject pv t)
          else pscalar s)"

primrec pval :: "nat \<Rightarrow> parser" where
  "pval 0 = pcontainer None"
| "pval (Suc d) = pcontainer (Some (pval d))"

definition maxNestingDepth :: nat where
  "maxNestingDepth = 10000"

definition parse_json :: "string \<Rightarrow> json option" where
  "parse_json s =
     (case pval maxNestingDepth (skip_ws s) of
        None \<Rightarrow> None
      | Some (v, r) \<Rightarrow> if skip_ws r = [] then Some v else None)"

section \<open>Consumption and fuel\<close>

text \<open>
  The loops rely on one law of the parser they call: a value takes at least one character. Under
  it the fuel the containers start with is enough, whatever larger amount is given.
\<close>

locale value_parser =
  fixes pv :: parser
  assumes consumes: "pv s = Some (v, r) \<Longrightarrow> length r < length s"
begin

lemma elems_fuel:
  "length s < n \<Longrightarrow> length s < m \<Longrightarrow> elems n pv s = elems m pv s"
proof (induction n arbitrary: m s)
  case (Suc n)
  obtain m' where m: "m = Suc m'" using Suc.prems(2) by (cases m) auto
  have "elems n pv t = elems m' pv t"
    if "pv (skip_ws s) = Some (v, r)" "skip_ws r = c # t" for v r c t
  proof -
    have "length t < length r"
      using that(2) length_dropWhile_le [of is_space r] by (simp add: skip_ws_def)
    also have "\<dots> < length s"
      using consumes [OF that(1)] length_dropWhile_le [of is_space s] by (simp add: skip_ws_def)
    finally show ?thesis using Suc.prems m by (intro Suc.IH) auto
  qed
  then show ?case
    by (auto simp add: m Let_def split: option.split list.split)
qed simp

lemma elems_consumes: "elems n pv s = Some (vs, t) \<Longrightarrow> length t < length s"
proof (induction n arbitrary: s vs)
  case (Suc n)
  then obtain v r c u where v: "pv (skip_ws s) = Some (v, r)" and c: "skip_ws r = c # u"
    and u: "u = t \<or> (\<exists>ws. elems n pv u = Some (ws, t))"
    by (auto simp add: Let_def split: option.splits list.splits if_splits)
  from u have "length t \<le> length u" using Suc.IH by force
  moreover have "length u < length r"
    using c length_dropWhile_le [of is_space r] by (simp add: skip_ws_def)
  moreover have "length r < length s"
    using consumes [OF v] length_dropWhile_le [of is_space s] by (simp add: skip_ws_def)
  ultimately show ?case by simp
qed simp

lemma pkey_consumes: "pkey s = Some (k, t) \<Longrightarrow> length t < length s"
proof -
  assume "pkey s = Some (k, t)"
  then obtain u r where u: "skip_ws s = CHR ''\"'' # u" "pstr u = Some (k, r)"
      "skip_ws r = CHR '':'' # t"
    by (auto simp add: pkey_def split: list.splits option.splits if_splits)
  then have "Suc (length t) \<le> length r" "Suc (length u) \<le> length s"
    using length_dropWhile_le [of is_space r] length_dropWhile_le [of is_space s]
    by (simp_all add: skip_ws_def)
  with pstr_length [OF u(2)] show ?thesis by simp
qed

lemma members_fuel:
  "length s < n \<Longrightarrow> length s < m \<Longrightarrow> members n pv s = members m pv s"
proof (induction n arbitrary: m s)
  case (Suc n)
  obtain m' where m: "m = Suc m'" using Suc.prems(2) by (cases m) auto
  have "members n pv t = members m' pv t"
    if "pkey s = Some (k, u)" "pv (skip_ws u) = Some (v, r)" "skip_ws r = c # t" for k u v r c t
  proof -
    have "length t < length r"
      using that(3) length_dropWhile_le [of is_space r] by (simp add: skip_ws_def)
    also have "\<dots> < length u"
      using consumes [OF that(2)] length_dropWhile_le [of is_space u] by (simp add: skip_ws_def)
    also have "\<dots> < length s" by (rule pkey_consumes [OF that(1)])
    finally show ?thesis using Suc.prems m by (intro Suc.IH) auto
  qed
  then show ?case
    by (auto simp add: m Let_def split: option.split list.split)
qed simp

lemma members_consumes: "members n pv s = Some (ms, t) \<Longrightarrow> length t < length s"
proof (induction n arbitrary: s ms)
  case (Suc n)
  then obtain k w v r c u where k: "pkey s = Some (k, w)" and v: "pv (skip_ws w) = Some (v, r)"
    and c: "skip_ws r = c # u" and u: "u = t \<or> (\<exists>ws. members n pv u = Some (ws, t))"
    by (auto simp add: Let_def split: option.splits list.splits if_splits)
  from u have "length t \<le> length u" using Suc.IH by force
  moreover have "length u < length r"
    using c length_dropWhile_le [of is_space r] by (simp add: skip_ws_def)
  moreover have "length r < length w"
    using consumes [OF v] length_dropWhile_le [of is_space w] by (simp add: skip_ws_def)
  ultimately show ?case using pkey_consumes [OF k] by simp
qed simp

lemma parray_consumes: "parray pv s = Some (v, t) \<Longrightarrow> length t < length s"
  using elems_consumes [of _ "skip_ws s"] length_dropWhile_le [of is_space s]
  by (fastforce simp add: parray_def skip_ws_def split: list.splits if_splits
      simp del: elems.simps)

lemma pobject_consumes: "pobject pv s = Some (v, t) \<Longrightarrow> length t < length s"
  using members_consumes [of _ "skip_ws s"] length_dropWhile_le [of is_space s]
  by (fastforce simp add: pobject_def skip_ws_def split: list.splits if_splits
      simp del: members.simps)

end

lemma pword_length: "pword w v s = Some (x, t) \<Longrightarrow> length s = length w + length t"
  by (induction w v s rule: pword.induct) (auto split: if_splits)

lemma pnum_length: "pnum s = Some (n, t) \<Longrightarrow> length t < length s"
  by (auto dest!: pnum_append)

lemma pscalar_consumes: "pscalar s = Some (v, t) \<Longrightarrow> length t < length s"
  by (cases s) (auto simp add: pscalar_def dest!: pword_length pnum_length pstr_length
      split: if_splits)

lemma pval_consumes: "pval d s = Some (v, t) \<Longrightarrow> length t < length s"
proof (induction d arbitrary: s v t)
  case 0
  then show ?case by (cases s) (auto split: if_splits dest: pscalar_consumes)
next
  case (Suc d)
  then have P: "value_parser (pval d)" by unfold_locales
  show ?case
    using Suc.prems value_parser.parray_consumes [OF P]
      value_parser.pobject_consumes [OF P]
    by (cases s) (auto split: if_splits dest!: pscalar_consumes intro: less_SucI)
qed

interpretation pval: value_parser "pval d"
  by unfold_locales (rule pval_consumes)

end
