(* ===== verification/GoJsonEnc.thy ===== *)
theory GoJsonEnc
  imports GoJson
begin

text \<open>
  The writing half of \<open>encoding/json\<close>: quoted strings with HTML escaping, arrays, objects, and
  \<open>compact\<close>, which \<open>Marshal\<close> applies to a \<open>RawMessage\<close>. Parsing inverts printing
  (\<open>pval_jprint\<close>), so the printed text determines the value.
\<close>

section \<open>Strings\<close>

definition hex_digit :: "nat \<Rightarrow> char" where
  "hex_digit n = (if n < 10 then char_of (48 + n) else char_of (87 + n))"

text \<open>An ASCII character inside a string.\<close>

definition esc_ascii :: "char \<Rightarrow> string" where
  "esc_ascii c =
     (if c = CHR ''\"'' \<or> c = CHR 0x5C then [CHR 0x5C, c]
      else if c = CHR 0x08 then [CHR 0x5C, CHR ''b''] else if c = CHR 0x0C then [CHR 0x5C, CHR ''f'']
      else if c = CHR 0x0A then [CHR 0x5C, CHR ''n''] else if c = CHR 0x0D then [CHR 0x5C, CHR ''r'']
      else if c = CHR 0x09 then [CHR 0x5C, CHR ''t'']
      else if ord_of c < 32 \<or> c = CHR ''<'' \<or> c = CHR ''>'' \<or> c = CHR ''&'' then
        [CHR 0x5C, CHR ''u'', CHR ''0'', CHR ''0'', hex_digit (ord_of c div 16),
         hex_digit (ord_of c mod 16)]
      else [c])"

text \<open>A rune: the line separators U+2028 and U+2029 are escaped, other runes keep their bytes.\<close>

definition esc_rune :: "nat \<Rightarrow> string" where
  "esc_rune r =
     (if r = 8232 \<or> r = 8233 then
        [CHR 0x5C, CHR ''u'', CHR ''2'', CHR ''0'', CHR ''2'', hex_digit (r mod 16)]
      else encode_scalar r)"

definition esc_bad :: string where
  "esc_bad = [CHR 0x5C, CHR ''u'', CHR ''f'', CHR ''f'', CHR ''f'', CHR ''d'']"

function esc_text :: "string \<Rightarrow> string" where
  "esc_text s =
     (case s of
        [] \<Rightarrow> []
      | c # t \<Rightarrow>
          if ord_of c < 128 then esc_ascii c @ esc_text t
          else
            (case decode_rune s of
               (r, n) \<Rightarrow>
                 (if r = RuneError \<and> n = 1 then esc_bad else esc_rune r) @ esc_text (drop n s)))"
  by pat_completeness auto
termination
  by (relation "measure length") (auto dest: decode_rune_drop)

declare esc_text.simps [simp del]

definition quote :: "string \<Rightarrow> string" where
  "quote s = CHR ''\"'' # esc_text s @ ''\"''"

lemma esc_text_Nil [simp]: "esc_text [] = []"
  by (simp add: esc_text.simps)

lemma esc_text_ascii [simp]: "ord_of c < 128 \<Longrightarrow> esc_text (c # s) = esc_ascii c @ esc_text s"
  by (subst esc_text.simps) simp

lemma esc_text_rune [simp]:
  assumes "scalar r" "128 \<le> r"
  shows "esc_text (encode_scalar r @ s) = esc_rune r @ esc_text s"
proof -
  obtain c t where ct: "encode_scalar r = c # t" "128 \<le> ord_of c"
    using encode_scalar_hd [OF assms] by blast
  have d: "decode_rune (encode_scalar r @ s) = (r, length (encode_scalar r))"
    using assms(1) by (rule decode_encode_scalar)
  have "\<not> (r = RuneError \<and> length (encode_scalar r) = 1)"
    using encode_scalar_not_error [OF assms(1)] by simp
  with d ct show ?thesis by (subst esc_text.simps) (auto simp add: ct(1))
qed

lemma esc_text_bad [simp]:
  "128 \<le> ord_of c \<Longrightarrow> decode_rune (c # s) = (RuneError, 1) \<Longrightarrow> esc_text (c # s) = esc_bad @ esc_text s"
  by (subst esc_text.simps) simp

subsection \<open>Reading back\<close>

lemma hex_val_digit [simp]: "n < 16 \<Longrightarrow> hex_val (hex_digit n) = Some n"
  by (simp add: hex_val_def hex_digit_def)

lemma hex_val_simps [simp]:
  "hex_val CHR ''0'' = Some 0" "hex_val CHR ''2'' = Some 2" "hex_val CHR ''f'' = Some 15"
  "hex_val CHR ''d'' = Some 13"
  by (simp_all add: hex_val_def)

lemma pair_rune_plain [simp]: "\<not> high_surrogate r \<Longrightarrow> pair_rune r s = (r, s)"
  by (cases "(r, s)" rule: pair_rune.cases) auto

lemma str_step_hex:
  assumes "hex4 (a # b # c # d # s) = Some (r, s)" "\<not> high_surrogate r"
  shows "str_step (CHR 0x5C # CHR ''u'' # a # b # c # d # s) = Some (encode_rune r, s)"
  using assms by (simp add: str_step.simps del: hex4.simps)

lemma encode_rune_ascii: "ord_of c < 128 \<Longrightarrow> encode_rune (ord_of c) = [c]"
  by (simp add: encode_rune_def encode_scalar_def scalar_def)

lemma str_step_ascii:
  assumes "ord_of c < 128"
  shows "str_step (esc_ascii c @ s) = Some ([c], s)" and "\<exists>d t. esc_ascii c = d # t \<and> d \<noteq> CHR ''\"''"
proof -
  let ?n = "ord_of c"
  define E where "E = {CHR ''\"'', CHR 0x5C, CHR 0x08, CHR 0x0C, CHR 0x0A, CHR 0x0D, CHR 0x09}"
  define H where "H \<longleftrightarrow> ?n < 32 \<or> c \<in> {CHR ''<'', CHR ''>'', CHR ''&''}"
  consider (esc) "c \<in> E" | (hex) "c \<notin> E" "H" | (plain) "c \<notin> E" "\<not> H" by blast
  then have "str_step (esc_ascii c @ s) = Some ([c], s) \<and> (\<exists>d t. esc_ascii c = d # t \<and> d \<noteq> CHR ''\"'')"
  proof cases
    case esc
    then show ?thesis by (auto simp add: E_def esc_ascii_def str_step.simps esc_val_def)
  next
    case hex
    then have e: "esc_ascii c = [CHR 0x5C, CHR ''u'', CHR ''0'', CHR ''0'', hex_digit (?n div 16),
        hex_digit (?n mod 16)]"
      by (auto simp add: E_def H_def esc_ascii_def)
    have "?n div 16 < 16" using assms by simp
    then have "hex4 (CHR ''0'' # CHR ''0'' # hex_digit (?n div 16) # hex_digit (?n mod 16) # s) =
        Some (?n, s)"
      by simp
    moreover have "\<not> high_surrogate ?n" using assms by (simp add: high_surrogate_def)
    ultimately show ?thesis
      using str_step_hex [of _ _ _ _ s ?n] assms by (simp add: e encode_rune_ascii)
  next
    case plain
    then have "esc_ascii c = [c]" by (simp add: E_def H_def esc_ascii_def)
    with plain show ?thesis using assms by (simp add: E_def H_def str_step.simps)
  qed
  then show "str_step (esc_ascii c @ s) = Some ([c], s)" "\<exists>d t. esc_ascii c = d # t \<and> d \<noteq> CHR ''\"''"
    by simp_all
qed

lemma str_step_rune:
  assumes "scalar r" "128 \<le> r"
  shows "str_step (esc_rune r @ s) = Some (encode_scalar r, s)"
    and "\<exists>d t. esc_rune r = d # t \<and> d \<noteq> CHR ''\"''"
proof -
  have "str_step (esc_rune r @ s) = Some (encode_scalar r, s) \<and> (\<exists>d t. esc_rune r = d # t \<and> d \<noteq> CHR ''\"'')"
  proof (cases "r = 8232 \<or> r = 8233")
    case True
    then have "hex4 (CHR ''2'' # CHR ''0'' # CHR ''2'' # hex_digit (r mod 16) # s) = Some (r, s)"
      by auto
    moreover have "\<not> high_surrogate r" using True by (auto simp add: high_surrogate_def)
    ultimately show ?thesis
      using str_step_hex [of _ _ _ _ s r] assms(1) True by (simp add: esc_rune_def encode_rune_def)
  next
    case False
    obtain c t where ct: "encode_scalar r = c # t" "128 \<le> ord_of c"
      using encode_scalar_hd [OF assms] by blast
    have "decode_rune (c # t @ s) = (r, Suc (length t))"
      using decode_encode_scalar [OF assms(1), of s] by (simp add: ct)
    moreover have "c \<noteq> CHR 0x5C" "c \<noteq> CHR ''\"''" using ct(2) by auto
    ultimately show ?thesis
      using assms(1) ct False by (auto simp add: esc_rune_def str_step.simps encode_rune_def)
  qed
  then show "str_step (esc_rune r @ s) = Some (encode_scalar r, s)"
    "\<exists>d t. esc_rune r = d # t \<and> d \<noteq> CHR ''\"''" by simp_all
qed

lemma str_step_bad: "str_step (esc_bad @ s) = Some (encode_scalar RuneError, s)"
  using str_step_hex [of "CHR ''f''" "CHR ''f''" "CHR ''f''" "CHR ''d''" s RuneError]
  by (simp add: esc_bad_def encode_rune_def RuneError_def high_surrogate_def)

lemma pstr_step:
  assumes "str_step (e @ t) = Some (d, t)" "\<exists>c u. e = c # u \<and> c \<noteq> CHR ''\"''"
    and "pstr t = Some (v, r)"
  shows "pstr (e @ t) = Some (d @ v, r)"
  using assms by (subst pstr.simps) (auto split: list.split)

text \<open>A written string reads back as its text, with U+FFFD for every malformed byte.\<close>

lemma pstr_esc_text: "pstr (esc_text s @ CHR ''\"'' # t) = Some (utf8_text (runes s), t)"
proof (induction s rule: utf8_induct)
  case Nil
  then show ?case by (simp add: pstr.simps)
next
  case (ascii c s)
  then have "runes (c # s) = ord_of c # runes s"
    by (subst runes.simps) (simp add: decode_rune.simps)
  then show ?case
    using pstr_step [OF str_step_ascii [OF ascii(1)] ascii(2)] ascii(1)
    by (simp add: encode_scalar_def)
next
  case (rune r s)
  then show ?case
    using pstr_step [OF str_step_rune [OF rune(1,2)] rune(3)] by simp
next
  case (bad c s)
  have "runes (c # s) = RuneError # runes s"
    using bad(2) by (subst runes.simps) simp
  moreover have "\<exists>d u. esc_bad = d # u \<and> d \<noteq> CHR ''\"''" by (simp add: esc_bad_def)
  ultimately show ?case
    using pstr_step [OF str_step_bad _ bad(3)] bad(1,2) by simp
qed

lemma pstr_esc_valid: "utf8_valid s \<Longrightarrow> pstr (esc_text s @ CHR ''\"'' # t) = Some (s, t)"
  using utf8_valid_runes [of s] by (simp add: pstr_esc_text)

definition unquote :: "string \<Rightarrow> string option" where
  "unquote s = (case s of [] \<Rightarrow> None | c # t \<Rightarrow> if c = CHR ''\"'' then map_option fst (pstr t) else None)"

interpretation json_string: codec quote unquote utf8_valid
  by unfold_locales (simp add: quote_def unquote_def pstr_esc_valid)

section \<open>Arrays and objects\<close>

fun join :: "string list \<Rightarrow> string" where
  "join [] = []"
| "join [x] = x"
| "join (x # y # xs) = x @ CHR '','' # join (y # xs)"

definition enc_array :: "string list \<Rightarrow> string" where
  "enc_array xs = CHR ''['' # join xs @ '']''"

definition enc_member :: "string \<times> string \<Rightarrow> string" where
  "enc_member kv = quote (fst kv) @ CHR '':'' # snd kv"

definition enc_object :: "(string \<times> string) list \<Rightarrow> string" where
  "enc_object kvs = CHR ''{'' # join (map enc_member kvs) @ ''}''"

section \<open>Printing trees\<close>

text \<open>
  A value without its source text, its printed form, and the parse tree of that form. A string
  that is not valid UTF-8 reads back cleaned.
\<close>

definition clean :: "string \<Rightarrow> string" where
  "clean s = utf8_text (runes s)"

lemma clean_valid [simp]: "utf8_valid s \<Longrightarrow> clean s = s"
  using utf8_valid_runes [of s] by (simp add: clean_def)

datatype jtree =
    TNull
  | TBool bool
  | TNum string
  | TStr string
  | TArr "jtree list"
  | TObj "(string \<times> jtree) list"

fun jprint :: "jtree \<Rightarrow> string" where
  "jprint TNull = ''null''"
| "jprint (TBool b) = (if b then ''true'' else ''false'')"
| "jprint (TNum n) = n"
| "jprint (TStr s) = quote s"
| "jprint (TArr ts) = enc_array (map jprint ts)"
| "jprint (TObj ms) = enc_object (map (\<lambda>m. (fst m, jprint (snd m))) ms)"

fun annot :: "jtree \<Rightarrow> json" where
  "annot TNull = JNull"
| "annot (TBool b) = JBool b"
| "annot (TNum n) = JNum n"
| "annot (TStr s) = JStr (clean s)"
| "annot (TArr ts) = JArr (map (\<lambda>t. (jprint t, annot t)) ts)"
| "annot (TObj ms) = JObj (map (\<lambda>m. (clean (fst m), jprint (snd m), annot (snd m))) ms)"

text \<open>A tree that can be printed: number texts are numbers. Its strings may be valid UTF-8.\<close>

fun tree_ok :: "jtree \<Rightarrow> bool" where
  "tree_ok (TNum n) = (pnum n = Some (n, []))"
| "tree_ok (TArr ts) = list_all tree_ok ts"
| "tree_ok (TObj ms) = list_all (\<lambda>m. tree_ok (snd m)) ms"
| "tree_ok _ = True"

fun tree_utf8 :: "jtree \<Rightarrow> bool" where
  "tree_utf8 (TStr s) = utf8_valid s"
| "tree_utf8 (TArr ts) = list_all tree_utf8 ts"
| "tree_utf8 (TObj ms) = list_all (\<lambda>m. utf8_valid (fst m) \<and> tree_utf8 (snd m)) ms"
| "tree_utf8 _ = True"

fun tree_depth :: "jtree \<Rightarrow> nat" where
  "tree_depth (TArr ts) = Suc (foldr max (map tree_depth ts) 0)"
| "tree_depth (TObj ms) = Suc (foldr max (map (\<lambda>m. tree_depth (snd m)) ms) 0)"
| "tree_depth _ = 0"

text \<open>The keys of an object are strictly increasing, at every level.\<close>

fun tree_sorted :: "jtree \<Rightarrow> bool" where
  "tree_sorted (TArr ts) = list_all tree_sorted ts"
| "tree_sorted (TObj ms) = (sorted_wrt (<) (map fst ms) \<and> list_all (\<lambda>m. tree_sorted (snd m)) ms)"
| "tree_sorted _ = True"

lemma foldr_max_le: "foldr max xs 0 \<le> (d :: nat) \<longleftrightarrow> (\<forall>x\<in>set xs. x \<le> d)"
  by (induction xs) auto

subsection \<open>Numbers in front of a delimiter\<close>

text \<open>What may follow a value: the end, a comma or a closing bracket.\<close>

definition stops :: "string \<Rightarrow> bool" where
  "stops r \<longleftrightarrow> r = [] \<or> hd r = CHR '','' \<or> hd r = CHR '']'' \<or> hd r = CHR ''}''"

lemma stops_simps [simp]:
  "stops []" "stops (CHR '','' # r)" "stops (CHR '']'' # r)" "stops (CHR ''}'' # r)"
  by (simp_all add: stops_def)

lemma stops_digits:
  "stops r \<Longrightarrow> takeWhile isDigit (s @ r) = takeWhile isDigit s"
  "stops r \<Longrightarrow> dropWhile isDigit (s @ r) = dropWhile isDigit s @ r"
  by (induction s) (cases r; auto simp add: stops_def isDigit_def)+

lemma pint_stops: "stops r \<Longrightarrow> pint s = Some (i, t) \<Longrightarrow> pint (s @ r) = Some (i, t @ r)"
  by (cases s) (auto simp add: stops_digits split: if_splits)

lemma stops_empty: "stops r \<Longrightarrow> pfrac r = Some ([], r)" "stops r \<Longrightarrow> pexp r = Some ([], r)"
  by (cases r; auto simp add: stops_def)+

lemma pfrac_stops: "stops r \<Longrightarrow> pfrac s = Some (f, t) \<Longrightarrow> pfrac (s @ r) = Some (f, t @ r)"
  by (cases s) (auto simp add: stops_digits stops_empty split: if_splits)

lemma pexp_stops:
  assumes "stops r" "pexp s = Some (e, t)"
  shows "pexp (s @ r) = Some (e, t @ r)"
proof (cases s)
  case Nil
  with assms show ?thesis by (simp add: stops_empty)
next
  case (Cons c u)
  then show ?thesis
    using assms by (cases u) (auto simp add: stops_digits split: if_splits)
qed

lemma pminus_append: "s \<noteq> [] \<Longrightarrow> pminus (s @ r) = (fst (pminus s), snd (pminus s) @ r)"
  by (cases s) auto

lemma pnum_stops:
  assumes "stops r" "pnum s = Some (n, t)"
  shows "pnum (s @ r) = Some (n, t @ r)"
proof -
  have "s \<noteq> []" using assms(2) by (auto simp add: pnum_eq)
  with assms(2) show ?thesis
    using pint_stops [OF assms(1)] pfrac_stops [OF assms(1)] pexp_stops [OF assms(1)]
    by (simp add: pnum_eq pminus_append) blast
qed

subsection \<open>Parsing inverts printing\<close>

text \<open>How a printed value starts.\<close>

definition starts :: "string \<Rightarrow> bool" where
  "starts s \<longleftrightarrow> (\<exists>c t. s = c # t \<and> \<not> is_space c \<and> c \<noteq> CHR '']'' \<and> c \<noteq> CHR ''}'')"

lemma starts_append: "starts s \<Longrightarrow> starts (s @ r)"
  by (auto simp add: starts_def)

lemma skip_ws_starts [simp]: "starts s \<Longrightarrow> skip_ws s = s"
  by (auto simp add: starts_def skip_ws_def)

lemma skip_ws_delim [simp]:
  "skip_ws (CHR '','' # r) = CHR '','' # r" "skip_ws (CHR '']'' # r) = CHR '']'' # r"
  "skip_ws (CHR ''}'' # r) = CHR ''}'' # r" "skip_ws (CHR '':'' # r) = CHR '':'' # r"
  "skip_ws (CHR ''\"'' # r) = CHR ''\"'' # r" "skip_ws [] = []"
  by (simp_all add: skip_ws_def is_space_def)

lemma raw_text_append [simp]: "raw_text (s @ r) r = s"
  by (simp add: raw_text_def)

text \<open>The first character of a number is a digit or a minus sign.\<close>

lemma pnum_first:
  assumes "pnum s = Some (n, t)"
  obtains c u where "s = c # u" "isDigit c \<or> c = CHR ''-''"
proof (cases s)
  case Nil
  with assms show ?thesis by (simp add: pnum_eq)
next
  case (Cons c u)
  moreover have "isDigit c \<or> c = CHR ''-''"
    using assms by (auto simp add: Cons pnum_eq isDigit_def split: if_splits)
  ultimately show ?thesis using that by blast
qed

lemma isDigit_not_special:
  assumes "isDigit c \<or> c = CHR ''-''"
  shows "\<not> is_space c" "c \<notin> {CHR '']'', CHR ''}'', CHR ''['', CHR ''{'', CHR ''\"'', CHR ''t'', CHR ''f'', CHR ''n''}"
  using assms by (auto simp add: isDigit_def is_space_def)

lemma jprint_starts: "tree_ok t \<Longrightarrow> starts (jprint t)"
proof (cases t)
  case (TNum n)
  assume "tree_ok t"
  then have "pnum n = Some (n, [])" by (simp add: TNum)
  then obtain c u where "n = c # u" "isDigit c \<or> c = CHR ''-''" by (rule pnum_first)
  then show ?thesis using isDigit_not_special [of c] by (simp add: starts_def TNum)
qed (auto simp add: starts_def is_space_def quote_def enc_array_def enc_object_def)

lemma elems_print:
  assumes "ts \<noteq> []" "length ts \<le> n" "\<forall>t\<in>set ts. starts (jprint t)"
    and "\<forall>t\<in>set ts. \<forall>r. stops r \<longrightarrow> pv (jprint t @ r) = Some (annot t, r)"
  shows "elems n pv (join (map jprint ts) @ CHR '']'' # r) =
    Some (map (\<lambda>t. (jprint t, annot t)) ts, r)"
  using assms
proof (induction ts arbitrary: n rule: induct_list012)
  case (2 t)
  then obtain m where "n = Suc m" by (cases n) auto
  with 2 show ?case by (simp add: starts_append)
next
  case (3 t u ts)
  then obtain m where "n = Suc m" by (cases n) auto
  with 3 show ?case by (simp add: starts_append)
qed simp

lemma pkey_print: "pkey (quote k @ CHR '':'' # r) = Some (clean k, r)"
  by (simp add: pkey_def quote_def pstr_esc_text clean_def)

lemma members_print:
  assumes "ms \<noteq> []" "length ms \<le> n" "\<forall>m\<in>set ms. starts (jprint (snd m))"
    and "\<forall>m\<in>set ms. \<forall>r. stops r \<longrightarrow> pv (jprint (snd m) @ r) = Some (annot (snd m), r)"
  shows "members n pv (join (map (\<lambda>m. enc_member (fst m, jprint (snd m))) ms) @ CHR ''}'' # r) =
    Some (map (\<lambda>m. (clean (fst m), jprint (snd m), annot (snd m))) ms, r)"
  using assms
proof (induction ms arbitrary: n rule: induct_list012)
  case (2 m)
  then obtain k where "n = Suc k" by (cases n) auto
  with 2 show ?case by (simp add: enc_member_def pkey_print starts_append)
next
  case (3 m m' ms)
  then obtain k where "n = Suc k" by (cases n) auto
  with 3 show ?case by (simp add: enc_member_def pkey_print starts_append)
qed simp

lemma length_join: "\<forall>x\<in>set xs. x \<noteq> [] \<Longrightarrow> length xs \<le> length (join xs)"
  by (induction xs rule: join.induct) (auto simp add: Suc_le_eq)

lemma join_starts: "xs \<noteq> [] \<Longrightarrow> starts (hd xs) \<Longrightarrow> starts (join xs @ r)"
  by (induction xs rule: join.induct) (auto simp add: starts_append)

lemma starts_enc_member: "starts (enc_member kv)"
  by (simp add: enc_member_def quote_def starts_def is_space_def)

lemma parray_starts:
  "starts s \<Longrightarrow> parray pv s = map_option (\<lambda>(vs, t). (JArr vs, t)) (elems (Suc (length s)) pv s)"
  and pobject_starts:
  "starts s \<Longrightarrow> pobject pv s = map_option (\<lambda>(ms, t). (JObj ms, t)) (members (Suc (length s)) pv s)"
  using skip_ws_starts [of s]
  by (auto simp add: starts_def parray_def pobject_def simp del: elems.simps members.simps skip_ws_starts)

lemma parray_print:
  assumes "\<forall>t\<in>set ts. starts (jprint t)"
    and "\<forall>t\<in>set ts. \<forall>r. stops r \<longrightarrow> pv (jprint t @ r) = Some (annot t, r)"
  shows "parray pv (join (map jprint ts) @ CHR '']'' # r) =
    Some (JArr (map (\<lambda>t. (jprint t, annot t)) ts), r)"
proof (cases "ts = []")
  case True
  then show ?thesis by (simp add: parray_def)
next
  case False
  let ?s = "join (map jprint ts) @ CHR '']'' # r"
  have "length (map jprint ts) \<le> length (join (map jprint ts))"
    using assms(1) by (intro length_join) (auto simp add: starts_def)
  then have len: "length ts \<le> Suc (length ?s)" by simp
  have "starts ?s" using False assms(1) by (intro join_starts) (simp_all add: hd_map)
  then show ?thesis
    using elems_print [OF False len assms] by (simp add: parray_starts del: elems.simps)
qed

lemma pobject_print:
  assumes "\<forall>m\<in>set ms. starts (jprint (snd m))"
    and "\<forall>m\<in>set ms. \<forall>r. stops r \<longrightarrow> pv (jprint (snd m) @ r) = Some (annot (snd m), r)"
  shows "pobject pv (join (map (\<lambda>m. enc_member (fst m, jprint (snd m))) ms) @ CHR ''}'' # r) =
    Some (JObj (map (\<lambda>m. (clean (fst m), jprint (snd m), annot (snd m))) ms), r)"
proof (cases "ms = []")
  case True
  then show ?thesis by (simp add: pobject_def)
next
  case False
  let ?xs = "map (\<lambda>m. enc_member (fst m, jprint (snd m))) ms"
  let ?s = "join ?xs @ CHR ''}'' # r"
  have "length ?xs \<le> length (join ?xs)"
    by (intro length_join) (auto simp add: enc_member_def)
  then have len: "length ms \<le> Suc (length ?s)" by simp
  have "starts ?s"
    using False by (intro join_starts) (simp_all add: hd_map starts_enc_member)
  then show ?thesis
    using members_print [OF False len assms] by (simp add: pobject_starts del: members.simps)
qed

lemma pval_pcontainer: "pval d = pcontainer (case d of 0 \<Rightarrow> None | Suc d \<Rightarrow> Some (pval d))"
  by (cases d) simp_all

lemma pword_append: "pword w v (w @ r) = Some (v, r)"
  by (induction w) simp_all

lemma pval_jprint:
  "tree_ok t \<Longrightarrow> tree_depth t \<le> d \<Longrightarrow> stops r \<Longrightarrow> pval d (jprint t @ r) = Some (annot t, r)"
proof (induction t arbitrary: d r)
  case (TNum n)
  then have n: "pnum n = Some (n, [])" by simp
  then obtain c u where c: "n = c # u" "isDigit c \<or> c = CHR ''-''" by (rule pnum_first)
  have "pnum (n @ r) = Some (n, r)" using pnum_stops [OF TNum(3) n] by simp
  with c show ?case
    using isDigit_not_special [of c] by (simp add: pval_pcontainer pscalar_def)
next
  case (TStr s)
  then show ?case
    by (simp add: pval_pcontainer pscalar_def quote_def pstr_esc_text clean_def)
next
  case (TArr ts)
  then obtain d' where d: "d = Suc d'" "\<forall>t\<in>set ts. tree_depth t \<le> d'"
    by (cases d) (auto simp add: foldr_max_le)
  have "\<forall>t\<in>set ts. \<forall>r. stops r \<longrightarrow> pval d' (jprint t @ r) = Some (annot t, r)"
    using TArr d by (auto simp add: list_all_iff)
  moreover have "\<forall>t\<in>set ts. starts (jprint t)"
    using TArr.prems by (auto simp add: list_all_iff jprint_starts)
  ultimately show ?case using parray_print [of ts "pval d'" r] by (simp add: d(1) enc_array_def)
next
  case (TObj ms)
  then obtain d' where d: "d = Suc d'" "\<forall>m\<in>set ms. tree_depth (snd m) \<le> d'"
    by (cases d) (auto simp add: foldr_max_le)
  have "\<forall>m\<in>set ms. \<forall>r. stops r \<longrightarrow> pval d' (jprint (snd m) @ r) = Some (annot (snd m), r)"
  proof (intro ballI allI impI)
    fix m r'
    assume m: "m \<in> set ms" "stops r'"
    show "pval d' (jprint (snd m) @ r') = Some (annot (snd m), r')"
      using TObj.prems(1) m d(2)
      by (intro TObj.IH [of m "snd m"]) (auto simp add: list_all_iff snds.simps)
  qed
  moreover have "\<forall>m\<in>set ms. starts (jprint (snd m))"
    using TObj.prems by (auto simp add: list_all_iff jprint_starts)
  ultimately show ?case
    using pobject_print [of ms "pval d'" r] by (simp add: d(1) enc_object_def comp_def)
qed (simp_all add: pval_pcontainer pscalar_def)

text \<open>A whole document, also with white space around it.\<close>

lemma parse_jprint:
  "tree_ok t \<Longrightarrow> tree_depth t \<le> maxNestingDepth \<Longrightarrow> parse_json (jprint t) = Some (annot t)"
  using pval_jprint [of t maxNestingDepth "[]"] jprint_starts [of t] by (simp add: parse_json_def)

text \<open>A printed document determines its tree.\<close>

fun strip :: "json \<Rightarrow> jtree" where
  "strip JNull = TNull"
| "strip (JBool b) = TBool b"
| "strip (JNum n) = TNum n"
| "strip (JStr s) = TStr s"
| "strip (JArr vs) = TArr (map (\<lambda>v. strip (snd v)) vs)"
| "strip (JObj ms) = TObj (map (\<lambda>m. (fst m, strip (snd (snd m)))) ms)"

lemma strip_annot: "tree_utf8 t \<Longrightarrow> strip (annot t) = t"
proof (induction t)
  case (TArr ts)
  then show ?case by (auto simp add: list_all_iff intro: map_idI)
next
  case (TObj ms)
  then show ?case by (force simp add: list_all_iff snds.simps intro: map_idI)
qed simp_all

definition printable :: "jtree \<Rightarrow> bool" where
  "printable t \<longleftrightarrow> tree_ok t \<and> tree_utf8 t \<and> tree_depth t \<le> maxNestingDepth"

definition parse_tree :: "string \<Rightarrow> jtree option" where
  "parse_tree s = map_option strip (parse_json s)"

interpretation json_doc: codec jprint parse_tree printable
  by unfold_locales (simp add: printable_def parse_tree_def parse_jprint strip_annot)

section \<open>Compacting a raw message\<close>

text \<open>
  The bytes of a valid document without the white space between tokens, and with the HTML
  characters and the line separators inside strings escaped. The flag says whether the loop is
  inside a string.
\<close>

definition html_char :: "char \<Rightarrow> bool" where
  "html_char c \<longleftrightarrow> c = CHR ''<'' \<or> c = CHR ''>'' \<or> c = CHR ''&''"

definition line_sep :: "char \<Rightarrow> string \<Rightarrow> bool" where
  "line_sep c s \<longleftrightarrow> (case s of
     a # b # _ \<Rightarrow> ord_of c = 226 \<and> ord_of a = 128 \<and> (ord_of b = 168 \<or> ord_of b = 169) | _ \<Rightarrow> False)"

fun compact_loop :: "bool \<Rightarrow> string \<Rightarrow> string" where
  "compact_loop q [] = []"
| "compact_loop q (c # s) =
     (if \<not> q then
        (if is_space c then compact_loop False s else c # compact_loop (c = CHR ''\"'') s)
      else if c = CHR ''\"'' then c # compact_loop False s
      else if c = CHR 0x5C then
        (case s of [] \<Rightarrow> [c] | e # t \<Rightarrow> c # e # compact_loop True t)
      else if html_char c then
        [CHR 0x5C, CHR ''u'', CHR ''0'', CHR ''0'', hex_digit (ord_of c div 16),
         hex_digit (ord_of c mod 16)] @ compact_loop True s
      else if line_sep c s then
        [CHR 0x5C, CHR ''u'', CHR ''2'', CHR ''0'', CHR ''2'', hex_digit (ord_of (s ! 1) mod 16)] @
        compact_loop True (drop 2 s)
      else c # compact_loop True s)"

definition compact :: "string \<Rightarrow> string option" where
  "compact s = map_option (\<lambda>_. compact_loop False s) (parse_json s)"

text \<open>Printed values are compact already.\<close>

definition plain_char :: "char \<Rightarrow> bool" where
  "plain_char c \<longleftrightarrow> c \<noteq> CHR ''\"'' \<and> c \<noteq> CHR 0x5C \<and> \<not> html_char c \<and> ord_of c \<noteq> 226"

lemma compact_plain:
  "\<forall>c\<in>set s. plain_char c \<Longrightarrow> compact_loop True (s @ r) = s @ compact_loop True r"
  by (induction s) (auto simp add: plain_char_def line_sep_def split: list.split)

lemma plain_hex [simp]: "n < 16 \<Longrightarrow> plain_char (hex_digit n)"
  by (auto simp add: plain_char_def hex_digit_def html_char_def simp flip: ord_eq_iff)

lemma plain_letters [simp]:
  "plain_char CHR ''0''" "plain_char CHR ''2''" "plain_char CHR ''f''" "plain_char CHR ''d''"
  by (simp_all add: plain_char_def html_char_def)

lemma esc_ascii_cases:
  assumes "ord_of c < 128"
  obtains (short) e where "esc_ascii c = [CHR 0x5C, e]"
  | (hex) u where "esc_ascii c = CHR 0x5C # CHR ''u'' # u" "\<forall>d\<in>set u. plain_char d"
  | (plain) "esc_ascii c = [c]" "plain_char c"
proof -
  have "ord_of c div 16 < 16" using assms by simp
  then have u: "\<forall>d\<in>set [CHR ''0'', CHR ''0'', hex_digit (ord_of c div 16), hex_digit (ord_of c mod 16)].
      plain_char d"
    by simp
  have "(\<exists>e. esc_ascii c = [CHR 0x5C, e]) \<or> esc_ascii c = CHR 0x5C # CHR ''u'' #
      [CHR ''0'', CHR ''0'', hex_digit (ord_of c div 16), hex_digit (ord_of c mod 16)] \<or>
      esc_ascii c = [c] \<and> plain_char c"
    using assms by (auto simp add: esc_ascii_def plain_char_def html_char_def)
  then show ?thesis using u short hex plain by blast
qed

lemma compact_esc_ascii:
  assumes "ord_of c < 128"
  shows "compact_loop True (esc_ascii c @ r) = esc_ascii c @ compact_loop True r"
  using assms
proof (cases rule: esc_ascii_cases)
  case (hex u)
  then show ?thesis using compact_plain [of u r] by simp
next
  case plain
  then show ?thesis using compact_plain [of "[c]" r] by simp
qed simp

lemma compact_rune:
  assumes "scalar r" "128 \<le> r" "\<not> (r = 8232 \<or> r = 8233)"
  shows "compact_loop True (encode_scalar r @ s) = encode_scalar r @ compact_loop True s"
proof (cases "r div 4096 = 2 \<and> 2048 \<le> r \<and> r < 65536")
  case True
  define a b where "a = r div 64 mod 64" and "b = r mod 64"
  have r: "r = 2 * 4096 + a * 64 + b"
    using base64_split2 [of r] True by (simp add: a_def b_def)
  have lt: "a < 64" "b < 64" by (simp_all add: a_def b_def)
  have e: "encode_scalar r = [char_of (226 :: nat), char_of (128 + a), char_of (128 + b)]"
    using True by (simp add: encode_scalar_def a_def b_def)
  have "\<not> line_sep (char_of (226 :: nat)) (char_of (128 + a) # char_of (128 + b) # s)"
    using r lt assms(3) by (auto simp add: line_sep_def)
  moreover have "plain_char (char_of (128 + a))" "plain_char (char_of (128 + b))"
    using lt by (auto simp add: plain_char_def html_char_def simp flip: ord_eq_iff)
  moreover have "char_of (226 :: nat) \<noteq> CHR ''\"''" "char_of (226 :: nat) \<noteq> CHR 0x5C"
    "\<not> html_char (char_of (226 :: nat))"
    by (auto simp add: html_char_def simp flip: ord_eq_iff)
  ultimately show ?thesis
    using compact_plain [of "[char_of (128 + a), char_of (128 + b)]" s] by (simp add: e)
next
  case False
  have plain: "plain_char (char_of n)" if "128 \<le> n" "n < 256" "n \<noteq> 226" for n :: nat
    using that by (auto simp add: plain_char_def html_char_def simp flip: ord_eq_iff)
  have "r < 1114112" using assms(1) by (auto simp add: scalar_def)
  then have "\<forall>c\<in>set (encode_scalar r). plain_char c"
    using False assms(2) by (auto simp add: encode_scalar_def intro!: plain)
  then show ?thesis by (rule compact_plain)
qed

lemma compact_esc_text:
  "compact_loop True (esc_text s @ CHR ''\"'' # r) = esc_text s @ CHR ''\"'' # compact_loop False r"
proof (induction s rule: utf8_induct)
  case (ascii c s)
  then show ?case using compact_esc_ascii [of c "esc_text s @ CHR ''\"'' # r"] by simp
next
  case (rune n s)
  have "compact_loop True ([CHR ''2'', CHR ''0'', CHR ''2'', hex_digit (n mod 16)] @ t) =
      [CHR ''2'', CHR ''0'', CHR ''2'', hex_digit (n mod 16)] @ compact_loop True t" for t
    by (intro compact_plain) auto
  with rune show ?case
    using compact_rune [of n "esc_text s @ CHR ''\"'' # r"] by (auto simp add: esc_rune_def)
next
  case (bad c s)
  have "compact_loop True (''fffd'' @ t) = ''fffd'' @ compact_loop True t" for t
    by (intro compact_plain) auto
  with bad show ?case by (simp add: esc_bad_def)
qed simp

lemma compact_quote: "compact_loop False (quote s @ r) = quote s @ compact_loop False r"
  by (simp add: quote_def compact_esc_text is_space_def)

lemma compact_punct:
  "\<forall>c\<in>set s. \<not> is_space c \<and> c \<noteq> CHR ''\"'' \<Longrightarrow> compact_loop False (s @ r) = s @ compact_loop False r"
  by (induction s) auto

lemma psign_chars: "c \<in> set (fst (psign u)) \<Longrightarrow> c = CHR ''+'' \<or> c = CHR ''-''"
  by (cases u) (auto split: if_splits)

lemma pnum_chars: "pnum s = Some (n, t) \<Longrightarrow> c \<in> set n \<Longrightarrow> \<not> is_space c \<and> c \<noteq> CHR ''\"''"
proof -
  assume "pnum s = Some (n, t)" "c \<in> set n"
  then obtain i a f b e where p: "pint (snd (pminus s)) = Some (i, a)" "pfrac a = Some (f, b)"
      "pexp b = Some (e, t)" and c: "c \<in> set (fst (pminus s)) \<union> set i \<union> set f \<union> set e"
    by (auto simp add: pnum_eq)
  have "isDigit c \<or> c \<in> {CHR ''-'', CHR ''+'', CHR ''.'', CHR ''e'', CHR ''E''}"
  proof -
    have zero: "isDigit zero_char" by (simp add: isDigit_def)
    have "set (fst (pminus s)) \<subseteq> {CHR ''-''}" by (cases s) auto
    moreover have "set i \<subseteq> {c. isDigit c}"
      using p(1) zero by (cases "snd (pminus s)") (auto split: if_splits dest: set_takeWhileD)
    moreover have "set f \<subseteq> {CHR ''.''} \<union> {c. isDigit c}"
      using p(2) by (cases a) (auto split: if_splits dest: set_takeWhileD)
    moreover have "set e \<subseteq> {CHR ''e'', CHR ''E'', CHR ''+'', CHR ''-''} \<union> {c. isDigit c}"
      using p(3) by (cases b) (auto simp add: prod.case_eq_if Let_def split: if_splits
          dest!: set_takeWhileD psign_chars)
    ultimately show ?thesis using c by blast
  qed
  then show ?thesis by (auto simp add: isDigit_def is_space_def)
qed

lemma compact_join:
  assumes "\<forall>x\<in>set xs. \<forall>r. compact_loop False (x @ r) = x @ compact_loop False r"
  shows "compact_loop False (join xs @ r) = join xs @ compact_loop False r"
  using assms by (induction xs rule: join.induct) (auto simp add: is_space_def)

lemma compact_jprint:
  "tree_ok t \<Longrightarrow> compact_loop False (jprint t @ r) = jprint t @ compact_loop False r"
proof (induction t arbitrary: r)
  case (TNum n)
  then have "pnum n = Some (n, [])" by simp
  then show ?case using pnum_chars by (simp add: compact_punct)
next
  case (TStr s)
  then show ?case by (simp add: compact_quote)
next
  case (TArr ts)
  have "compact_loop False (join (map jprint ts) @ r') = join (map jprint ts) @ compact_loop False r'" for r'
    using TArr by (intro compact_join) (auto simp add: list_all_iff)
  then show ?case by (simp add: enc_array_def is_space_def)
next
  case (TObj ms)
  let ?xs = "map (\<lambda>m. enc_member (fst m, jprint (snd m))) ms"
  have "compact_loop False (jprint (snd m) @ r') = jprint (snd m) @ compact_loop False r'"
    if "m \<in> set ms" for m r'
    using TObj.prems that by (intro TObj.IH [of m]) (auto simp add: list_all_iff snds.simps)
  then have "compact_loop False (join ?xs @ r') = join ?xs @ compact_loop False r'" for r'
    by (intro compact_join) (auto simp add: enc_member_def compact_quote is_space_def)
  then show ?case by (simp add: enc_object_def is_space_def comp_def)
qed (simp_all add: is_space_def)

lemma compact_printed:
  "tree_ok t \<Longrightarrow> tree_depth t \<le> maxNestingDepth \<Longrightarrow> compact (jprint t) = Some (jprint t)"
  using compact_jprint [of t "[]"] by (simp add: compact_def parse_jprint)

end
