(* ===== verification/AminoSignDoc.thy ===== *)
theory AminoSignDoc
  imports Verify Multisig GoJsonEnc
begin

text \<open>
  \<open>gentxvalidate/aminosigndoc.go\<close>: the \<open>SIGN_MODE_LEGACY_AMINO_JSON\<close> sign bytes and their
  verification. \<open>json.Marshal\<close> of a struct writes its fields in the order of the declaration and
  leaves out an empty \<open>omitempty\<close> string; every struct of the file is a function to the list of
  its members. The bytes are shown to be the printed form of one tree with sorted keys, so they
  determine the signed fields.
\<close>

section \<open>The structs\<close>

definition msgCreateValidatorAminoName :: string where
  "msgCreateValidatorAminoName = ''cosmos-sdk/MsgCreateValidator''"

definition aminoConsensusKeyNames :: "string \<rightharpoonup> string" where
  "aminoConsensusKeyNames = [ed25519PubKeyTypeURL \<mapsto> ''tendermint/PubKeyEd25519'']"

definition str_member :: "string \<Rightarrow> string \<Rightarrow> (string \<times> string) list" where
  "str_member k s = [(k, quote s)]"

definition omitempty :: "string \<Rightarrow> string \<Rightarrow> (string \<times> string) list" where
  "omitempty k s = (if s = [] then [] else [(k, quote s)])"

definition aminoCoin :: "Coin \<Rightarrow> string" where
  "aminoCoin c = enc_object (str_member ''amount'' (Amount c) @ str_member ''denom'' (Denom c))"

definition aminoStdFee :: "Coin list \<Rightarrow> string \<Rightarrow> string" where
  "aminoStdFee amount gas =
     enc_object ((''amount'', enc_array (map aminoCoin amount)) # str_member ''gas'' gas)"

definition aminoCommission :: "CommissionRates \<Rightarrow> string" where
  "aminoCommission c =
     enc_object (str_member ''max_change_rate'' (MaxChangeRate c) @
       str_member ''max_rate'' (MaxRate c) @ str_member ''rate'' (Rate c))"

definition aminoDescription :: "Description \<Rightarrow> string" where
  "aminoDescription d =
     enc_object (omitempty ''details'' (Details d) @ omitempty ''identity'' (Identity d) @
       omitempty ''moniker'' (Moniker d) @ omitempty ''security_contact'' (SecurityContact d) @
       omitempty ''website'' (Website d))"

definition aminoPubKey :: "string \<Rightarrow> string \<Rightarrow> string" where
  "aminoPubKey t v = enc_object (str_member ''type'' t @ str_member ''value'' v)"

definition aminoMsgCreateValidator :: "MsgCreateValidator \<Rightarrow> string \<Rightarrow> string" where
  "aminoMsgCreateValidator m consKeyName =
     enc_object (
       (''commission'', aminoCommission (MsgCommission m)) #
       omitempty ''delegator_address'' (DelegatorAddress m) @
       (''description'', aminoDescription (MsgDescription m)) #
       str_member ''min_self_delegation'' (MsgMinSelfDelegation m) @
       (''pubkey'', aminoPubKey consKeyName (EncodeToString (ConsensusPubKey m))) #
       omitempty ''validator_address'' (ValidatorAddress m) @
       [(''value'', aminoCoin (MsgValue m))])"

definition aminoMsg :: "MsgCreateValidator \<Rightarrow> string \<Rightarrow> string" where
  "aminoMsg m consKeyName =
     enc_object (str_member ''type'' msgCreateValidatorAminoName @
       [(''value'', aminoMsgCreateValidator m consKeyName)])"

definition aminoStdSignDoc ::
  "string \<Rightarrow> string \<Rightarrow> string \<Rightarrow> string \<Rightarrow> string list \<Rightarrow> string \<Rightarrow> string \<Rightarrow> string" where
  "aminoStdSignDoc accountNumber chainID fee memo msgs sequence timeoutHeight =
     enc_object (str_member ''account_number'' accountNumber @ str_member ''chain_id'' chainID @
       (''fee'', fee) # str_member ''memo'' memo @ (''msgs'', enc_array msgs) #
       str_member ''sequence'' sequence @ omitempty ''timeout_height'' timeoutHeight)"

section \<open>The sign bytes\<close>

text \<open>
  The message is marshalled first and becomes a raw message of the document, which compacts it;
  that cannot fail (\<open>AminoSignBytes_tree\<close>).
\<close>

definition AminoSignBytes :: "ParsedGentx \<Rightarrow> string \<Rightarrow> uint64 \<Rightarrow> gerr + bytes" where
  "AminoSignBytes g chainID accountNumber =
     (if Mode (Signer g) \<noteq> signModeAminoJSONName then Inl (ErrSignMode (Mode (Signer g)))
      else
        case aminoConsensusKeyNames (ConsensusPubKeyTypeURL (Msg g)) of
          None \<Rightarrow> Inl (ErrNoAminoName (ConsensusPubKeyTypeURL (Msg g)))
        | Some consKeyName \<Rightarrow>
            let msgBz = aminoMsg (Msg g) consKeyName;
                fee = aminoStdFee (FeeAmount (TxFee g)) (FormatUint (GasLimit (TxFee g)));
                timeout = (if TimeoutHeight g \<noteq> 0 then FormatUint (TimeoutHeight g) else [])
            in (case compact msgBz of
                  None \<Rightarrow> Inl ErrMarshalStdSignDoc
                | Some msg \<Rightarrow>
                    Inr (bytes_of (aminoStdSignDoc (FormatUint accountNumber) chainID fee (Memo g)
                      [msg] (FormatUint (Sequence (Signer g))) timeout))))"

definition VerifyAminoJSON ::
  "('pk, 'sc) externals \<Rightarrow> ParsedGentx \<Rightarrow> string \<Rightarrow> uint64 \<Rightarrow> (gerr + bool) outcome" where
  "VerifyAminoJSON X g chainID accountNumber =
     (case AminoSignBytes g chainID accountNumber of
        Inl e \<Rightarrow> Ret (Inl e)
      | Inr signBytes \<Rightarrow>
          (case Multisig (Signer g) of
             Some ms \<Rightarrow> verifyAminoMultisig X ms (Signature g) signBytes
           | None \<Rightarrow>
               (case checkSingleSecpSigner g of
                  Inl e \<Rightarrow> Ret (Inl e)
                | Inr _ \<Rightarrow> verifySecpCompact X (PubKey (Signer g)) (Signature g) signBytes)))"

section \<open>The document as a tree\<close>

type_synonym tmember = "string \<times> jtree"

definition opt_member :: "string \<Rightarrow> string \<Rightarrow> tmember list" where
  "opt_member k s = (if s = [] then [] else [(k, TStr s)])"

definition coin_tree :: "Coin \<Rightarrow> jtree" where
  "coin_tree c = TObj [(''amount'', TStr (Amount c)), (''denom'', TStr (Denom c))]"

definition commission_tree :: "CommissionRates \<Rightarrow> jtree" where
  "commission_tree c = TObj [(''max_change_rate'', TStr (MaxChangeRate c)),
     (''max_rate'', TStr (MaxRate c)), (''rate'', TStr (Rate c))]"

definition description_tree :: "Description \<Rightarrow> jtree" where
  "description_tree d =
     TObj (opt_member ''details'' (Details d) @ opt_member ''identity'' (Identity d) @
       opt_member ''moniker'' (Moniker d) @ opt_member ''security_contact'' (SecurityContact d) @
       opt_member ''website'' (Website d))"

definition pubkey_tree :: "string \<Rightarrow> bytes \<Rightarrow> jtree" where
  "pubkey_tree t k = TObj [(''type'', TStr t), (''value'', TStr (EncodeToString k))]"

definition create_tree :: "MsgCreateValidator \<Rightarrow> string \<Rightarrow> jtree" where
  "create_tree m n =
     TObj ((''commission'', commission_tree (MsgCommission m)) #
       opt_member ''delegator_address'' (DelegatorAddress m) @
       (''description'', description_tree (MsgDescription m)) #
       (''min_self_delegation'', TStr (MsgMinSelfDelegation m)) #
       (''pubkey'', pubkey_tree n (ConsensusPubKey m)) #
       opt_member ''validator_address'' (ValidatorAddress m) @
       [(''value'', coin_tree (MsgValue m))])"

definition amino_msg_tree :: "MsgCreateValidator \<Rightarrow> string \<Rightarrow> jtree" where
  "amino_msg_tree m n =
     TObj [(''type'', TStr msgCreateValidatorAminoName), (''value'', create_tree m n)]"

definition amino_fee_tree :: "Fee \<Rightarrow> jtree" where
  "amino_fee_tree f = TObj [(''amount'', TArr (map coin_tree (FeeAmount f))),
     (''gas'', TStr (FormatUint (GasLimit f)))]"

definition amino_tree :: "ParsedGentx \<Rightarrow> string \<Rightarrow> uint64 \<Rightarrow> jtree" where
  "amino_tree g c n =
     TObj ([(''account_number'', TStr (FormatUint n)), (''chain_id'', TStr c),
       (''fee'', amino_fee_tree (TxFee g)), (''memo'', TStr (Memo g)),
       (''msgs'', TArr [amino_msg_tree (Msg g) ''tendermint/PubKeyEd25519'']),
       (''sequence'', TStr (FormatUint (Sequence (Signer g))))] @
       opt_member ''timeout_height''
         (if TimeoutHeight g \<noteq> 0 then FormatUint (TimeoutHeight g) else []))"

lemmas amino_trees = coin_tree_def commission_tree_def description_tree_def pubkey_tree_def
  create_tree_def amino_msg_tree_def amino_fee_tree_def amino_tree_def

lemma print_opt_member [simp]:
  "map (\<lambda>m. (fst m, jprint (snd m))) (opt_member k s) = omitempty k s"
  by (simp add: opt_member_def omitempty_def)

lemma aminoCoin_tree: "aminoCoin c = jprint (coin_tree c)"
  by (simp add: aminoCoin_def coin_tree_def str_member_def)

lemma aminoCoins_tree: "map aminoCoin cs = map (\<lambda>c. jprint (coin_tree c)) cs"
  by (simp add: aminoCoin_tree)

lemma aminoMsg_tree: "aminoMsg m n = jprint (amino_msg_tree m n)"
  by (simp add: aminoMsg_def aminoMsgCreateValidator_def aminoCommission_def aminoDescription_def
      aminoPubKey_def aminoCoin_tree amino_msg_tree_def create_tree_def commission_tree_def
      description_tree_def pubkey_tree_def str_member_def)

lemma tree_ok_opt [simp]: "list_all (\<lambda>m. tree_ok (snd m)) (opt_member k s)"
  by (simp add: opt_member_def)

lemma depth_opt [simp]: "foldr max (map (\<lambda>m. tree_depth (snd m)) (opt_member k s)) x = x"
  by (simp add: opt_member_def)

lemma amino_msg_compact: "compact (aminoMsg m n) = Some (aminoMsg m n)"
  unfolding aminoMsg_tree
  by (rule compact_printed)
     (simp_all add: amino_trees maxNestingDepth_def)

text \<open>The sign bytes are the printed document.\<close>

lemma AminoSignBytes_tree:
  "AminoSignBytes g c n = Inr b \<longleftrightarrow>
     Mode (Signer g) = signModeAminoJSONName \<and> ConsensusPubKeyTypeURL (Msg g) = ed25519PubKeyTypeURL \<and>
     b = bytes_of (jprint (amino_tree g c n))"
proof -
  have "aminoStdSignDoc (FormatUint n) c (aminoStdFee (FeeAmount (TxFee g)) (FormatUint (GasLimit (TxFee g))))
      (Memo g) [aminoMsg (Msg g) k] (FormatUint (Sequence (Signer g))) t =
    jprint (TObj ([(''account_number'', TStr (FormatUint n)), (''chain_id'', TStr c),
       (''fee'', amino_fee_tree (TxFee g)), (''memo'', TStr (Memo g)),
       (''msgs'', TArr [amino_msg_tree (Msg g) k]),
       (''sequence'', TStr (FormatUint (Sequence (Signer g))))] @ opt_member ''timeout_height'' t))" for k t
    by (simp add: aminoStdSignDoc_def aminoStdFee_def aminoMsg_tree aminoCoins_tree
        amino_fee_tree_def str_member_def comp_def)
  then show ?thesis
    by (auto simp add: AminoSignBytes_def amino_msg_compact aminoConsensusKeyNames_def
        amino_tree_def Let_def)
qed

section \<open>What the document determines\<close>

definition tmember_of :: "string \<Rightarrow> jtree \<Rightarrow> jtree" where
  "tmember_of k t =
     (case t of TObj ms \<Rightarrow> (case map_of ms k of Some u \<Rightarrow> u | None \<Rightarrow> TNull) | _ \<Rightarrow> TNull)"

definition tstr_of :: "string \<Rightarrow> jtree \<Rightarrow> string" where
  "tstr_of k t = (case tmember_of k t of TStr s \<Rightarrow> s | _ \<Rightarrow> [])"

lemma map_of_opt_member:
  "map_of (opt_member k s @ ms) x = (if x = k \<and> s \<noteq> [] then Some (TStr s) else map_of ms x)"
  "map_of (opt_member k s) x = (if x = k \<and> s \<noteq> [] then Some (TStr s) else None)"
  by (auto simp add: opt_member_def)

lemmas amino_reads = tstr_of_def tmember_of_def map_of_opt_member

lemma coin_tree_inject [simp]: "coin_tree c = coin_tree d \<longleftrightarrow> c = d"
  by (cases c; cases d) (auto simp add: coin_tree_def)

lemma commission_tree_inject [simp]: "commission_tree c = commission_tree d \<longleftrightarrow> c = d"
  by (cases c; cases d) (auto simp add: commission_tree_def)

lemma description_tree_reads:
  "tstr_of ''details'' (description_tree d) = Details d"
  "tstr_of ''identity'' (description_tree d) = Identity d"
  "tstr_of ''moniker'' (description_tree d) = Moniker d"
  "tstr_of ''security_contact'' (description_tree d) = SecurityContact d"
  "tstr_of ''website'' (description_tree d) = Website d"
  by (simp_all add: description_tree_def amino_reads del: map_of_append)

lemma description_tree_inject [simp]: "description_tree c = description_tree d \<longleftrightarrow> c = d"
proof
  assume "description_tree c = description_tree d"
  then have "tstr_of k (description_tree c) = tstr_of k (description_tree d)" for k by simp
  note eq = this [of "''details''"] this [of "''identity''"] this [of "''moniker''"]
    this [of "''security_contact''"] this [of "''website''"]
  from eq [unfolded description_tree_reads] show "c = d" by (cases c; cases d) simp
qed simp

lemma pubkey_tree_inject [simp]: "pubkey_tree t k = pubkey_tree u l \<longleftrightarrow> t = u \<and> k = l"
  using base64.enc_inject by (auto simp add: pubkey_tree_def)

lemma create_tree_reads:
  "tmember_of ''commission'' (create_tree m n) = commission_tree (MsgCommission m)"
  "tmember_of ''description'' (create_tree m n) = description_tree (MsgDescription m)"
  "tmember_of ''pubkey'' (create_tree m n) = pubkey_tree n (ConsensusPubKey m)"
  "tmember_of ''value'' (create_tree m n) = coin_tree (MsgValue m)"
  "tstr_of ''delegator_address'' (create_tree m n) = DelegatorAddress m"
  "tstr_of ''min_self_delegation'' (create_tree m n) = MsgMinSelfDelegation m"
  "tstr_of ''validator_address'' (create_tree m n) = ValidatorAddress m"
  by (simp_all add: create_tree_def amino_reads del: map_of_append)

lemma create_tree_inject:
  assumes "create_tree m n = create_tree m' n'"
    and "ConsensusPubKeyTypeURL m = ConsensusPubKeyTypeURL m'"
  shows "m = m'"
proof -
  from assms(1) have "tmember_of k (create_tree m n) = tmember_of k (create_tree m' n')"
    and "tstr_of k (create_tree m n) = tstr_of k (create_tree m' n')" for k by simp_all
  note eq = this(1) [of "''commission''"] this(1) [of "''description''"] this(1) [of "''pubkey''"]
    this(1) [of "''value''"] this(2) [of "''delegator_address''"]
    this(2) [of "''min_self_delegation''"] this(2) [of "''validator_address''"]
  from eq [unfolded create_tree_reads] assms(2) show ?thesis by (cases m; cases m') simp
qed

lemma FormatUint_not_Nil [simp]: "FormatUint v \<noteq> []"
  by (simp add: FormatUint_def)

lemma format_uint_timeout:
  "(if t \<noteq> 0 then FormatUint t else []) = (if u \<noteq> 0 then FormatUint u else []) \<longleftrightarrow> t = u"
  using uint_text.enc_inject [of t u] FormatUint_not_Nil [of t] FormatUint_not_Nil [of u]
  by (auto simp del: FormatUint_not_Nil)

text \<open>
  The fields the amino document covers. The payer and the granter of the fee, the account key and
  the key type are not among them.
\<close>

definition same_amino :: "ParsedGentx \<Rightarrow> ParsedGentx \<Rightarrow> bool" where
  "same_amino g g' \<longleftrightarrow> Msg g = Msg g' \<and> Memo g = Memo g' \<and> TimeoutHeight g = TimeoutHeight g' \<and>
     Sequence (Signer g) = Sequence (Signer g') \<and> FeeAmount (TxFee g) = FeeAmount (TxFee g') \<and>
     GasLimit (TxFee g) = GasLimit (TxFee g')"

lemma amino_tree_inject:
  assumes "amino_tree g c n = amino_tree g' c' n'"
    and "ConsensusPubKeyTypeURL (Msg g) = ConsensusPubKeyTypeURL (Msg g')"
  shows "c = c' \<and> n = n' \<and> same_amino g g'"
proof -
  let ?t = "\<lambda>g. if TimeoutHeight g \<noteq> 0 then FormatUint (TimeoutHeight g) else []"
  have eqs: "FormatUint n = FormatUint n'" "c = c'" "Memo g = Memo g'"
      "amino_fee_tree (TxFee g) = amino_fee_tree (TxFee g')"
      "amino_msg_tree (Msg g) ''tendermint/PubKeyEd25519'' =
       amino_msg_tree (Msg g') ''tendermint/PubKeyEd25519''"
      "FormatUint (Sequence (Signer g)) = FormatUint (Sequence (Signer g'))"
    and opt: "opt_member ''timeout_height'' (?t g) = opt_member ''timeout_height'' (?t g')"
    using assms(1) unfolding amino_tree_def by simp_all
  have "Msg g = Msg g'"
    using eqs(5) assms(2) create_tree_inject by (simp add: amino_msg_tree_def)
  moreover have "map coin_tree (FeeAmount (TxFee g)) = map coin_tree (FeeAmount (TxFee g'))"
    and "FormatUint (GasLimit (TxFee g)) = FormatUint (GasLimit (TxFee g'))"
    using eqs(4) by (simp_all add: amino_fee_tree_def)
  then have "FeeAmount (TxFee g) = FeeAmount (TxFee g')" "GasLimit (TxFee g) = GasLimit (TxFee g')"
    by (simp_all add: uint_text.enc_inject inj_map_eq_map [of coin_tree] inj_def)
  moreover have "?t g = ?t g'" using opt by (simp add: opt_member_def split: if_splits)
  then have "TimeoutHeight g = TimeoutHeight g'" by (simp only: format_uint_timeout)
  ultimately show ?thesis
    using eqs by (simp add: same_amino_def uint_text.enc_inject)
qed

lemma amino_tree_same: "same_amino g g' \<Longrightarrow> amino_tree g c n = amino_tree g' c n"
  by (simp add: same_amino_def amino_tree_def amino_fee_tree_def)

text \<open>The document is printable when its strings are valid UTF-8, as every decoded string is.\<close>

definition coin_utf8 :: "Coin \<Rightarrow> bool" where
  "coin_utf8 c \<longleftrightarrow> utf8_valid (Denom c) \<and> utf8_valid (Amount c)"

definition gentx_utf8 :: "ParsedGentx \<Rightarrow> bool" where
  "gentx_utf8 g \<longleftrightarrow>
     (let m = Msg g; d = MsgDescription m; r = MsgCommission m in
      list_all utf8_valid
        [Moniker d, Identity d, Website d, SecurityContact d, Details d, Rate r, MaxRate r,
         MaxChangeRate r, MsgMinSelfDelegation m, DelegatorAddress m, ValidatorAddress m,
         ConsensusPubKeyTypeURL m, Memo g, PubKeyTypeURL (Signer g), Mode (Signer g),
         Payer (TxFee g), Granter (TxFee g)] \<and>
      coin_utf8 (MsgValue m) \<and> list_all coin_utf8 (FeeAmount (TxFee g)))"

lemma utf8_digits: "all_digits s \<Longrightarrow> utf8_valid s"
  by (rule utf8_valid_ascii) (auto simp add: all_digits_def list_all_iff isDigit_def)

lemma utf8_FormatUint [simp]: "utf8_valid (FormatUint v)"
  by (simp add: FormatUint_def utf8_digits)

lemma utf8_base64 [simp]: "utf8_valid (EncodeToString b)"
proof (rule utf8_valid_ascii, rule ballI)
  fix c
  assume "c \<in> set (EncodeToString b)"
  then have "b64_text_char c" by (rule EncodeToString_chars)
  then show "ord_of c < 128"
    by (auto simp add: b64_text_char_def b64_val_def Let_def split: if_splits)
qed

lemma ball_opt [simp]:
  "(\<forall>m\<in>set (opt_member k s). P m) \<longleftrightarrow> s = [] \<or> P (k, TStr s)"
  by (simp add: opt_member_def)

lemma utf8_literal: "list_all (\<lambda>c. ord_of c < 128) s \<Longrightarrow> utf8_valid s"
  by (rule utf8_valid_ascii) (simp add: list_all_iff)

lemma amino_tree_printable:
  assumes "gentx_utf8 g" "utf8_valid c"
  shows "printable (amino_tree g c n)"
proof -
  have "tree_ok (amino_tree g c n)" by (simp add: amino_trees list_all_iff ball_Un)
  moreover have "tree_utf8 (amino_tree g c n)"
    using assms by (auto simp add: amino_trees gentx_utf8_def coin_utf8_def Let_def
        utf8_literal msgCreateValidatorAminoName_def list_all_iff ball_Un)
  moreover have "tree_depth (amino_tree g c n) \<le> maxNestingDepth"
    by (auto simp add: amino_trees maxNestingDepth_def comp_def foldr_max_le)
  ultimately show ?thesis by (simp add: printable_def)
qed

text \<open>Sign bytes of valid text determine what they were made from.\<close>

lemma AminoSignBytes_inject:
  assumes "gentx_utf8 g" "gentx_utf8 g'" "utf8_valid c" "utf8_valid c'"
    and "AminoSignBytes g c n = Inr b" "AminoSignBytes g' c' n' = Inr b"
  shows "c = c' \<and> n = n' \<and> same_amino g g'"
proof -
  from assms(5,6) have "jprint (amino_tree g c n) = jprint (amino_tree g' c' n')"
    and "ConsensusPubKeyTypeURL (Msg g) = ConsensusPubKeyTypeURL (Msg g')"
    by (auto simp add: AminoSignBytes_tree)
  moreover have "printable (amino_tree g c n)" "printable (amino_tree g' c' n')"
    using assms by (simp_all add: amino_tree_printable)
  ultimately show ?thesis using json_doc.enc_inject amino_tree_inject by blast
qed

section \<open>Sorted keys\<close>

lemma keys_opt: "set (map fst (opt_member k s)) \<subseteq> {k}"
  by (simp add: opt_member_def)

lemma sorted_opt [simp]:
  "sorted_wrt (<) (map fst (opt_member k s))"
  by (simp add: opt_member_def)

lemmas char_order = less_char_def

lemma sorted_description: "tree_sorted (description_tree d)"
  by (simp add: description_tree_def sorted_wrt_append list_all_iff ball_Un char_order)

lemma sorted_coin: "tree_sorted (coin_tree c)"
  by (simp add: coin_tree_def char_order)

lemma sorted_create: "tree_sorted (create_tree m n)"
  by (simp add: create_tree_def commission_tree_def pubkey_tree_def sorted_wrt_append list_all_iff
      ball_Un sorted_description sorted_coin char_order)

lemma sorted_amino: "tree_sorted (amino_tree g c n)"
  by (simp add: amino_tree_def amino_fee_tree_def amino_msg_tree_def sorted_wrt_append list_all_iff
      ball_Un sorted_create sorted_coin char_order)

section \<open>Verification\<close>

lemma verify_single_True:
  "(case checkSingleSecpSigner g of
      Inl e \<Rightarrow> Ret (Inl e)
    | Inr _ \<Rightarrow> verifySecpCompact X (PubKey (Signer g)) (Signature g) m) = Ret (Inr True) \<longleftrightarrow>
   single_signed X g m"
proof (cases "checkSingleSecpSigner g")
  case (Inl e)
  then show ?thesis
    using checkSingleSecpSigner_ok [of g "()"] by (auto simp add: single_signed_def)
next
  case (Inr u)
  then have "length (Signature g) = 64" "PubKeyTypeURL (Signer g) = secp256k1PubKeyTypeURL"
    "length (PubKey (Signer g)) = 33"
    by (simp_all add: checkSingleSecpSigner_ok)
  then show ?thesis by (simp add: Inr single_signed_def verifySecpCompact_True)
qed

lemma verify_single_returns:
  "(case checkSingleSecpSigner g of
      Inl e \<Rightarrow> Ret (Inl e)
    | Inr _ \<Rightarrow> verifySecpCompact X (PubKey (Signer g)) (Signature g) m) \<noteq> Panic"
proof (cases "checkSingleSecpSigner g")
  case (Inr u)
  then have "32 \<le> length (Signature g)" by (simp add: checkSingleSecpSigner_ok)
  then show ?thesis by (simp add: Inr verifySecpCompact_returns)
qed simp

text \<open>The acceptance condition over given sign bytes: a multisig or a single key.\<close>

definition amino_signed :: "('pk, 'sc) externals \<Rightarrow> ParsedGentx \<Rightarrow> bytes \<Rightarrow> bool" where
  "amino_signed X g m \<longleftrightarrow>
     (case Multisig (Signer g) of
        Some ms \<Rightarrow> verifyAminoMultisig X ms (Signature g) m = Ret (Inr True)
      | None \<Rightarrow> single_signed X g m)"

lemma VerifyAminoJSON_True:
  "VerifyAminoJSON X g c n = Ret (Inr True) \<longleftrightarrow>
     (\<exists>b. AminoSignBytes g c n = Inr b \<and> amino_signed X g b)"
  by (cases "AminoSignBytes g c n"; cases "Multisig (Signer g)")
     (simp_all add: VerifyAminoJSON_def amino_signed_def verify_single_True)

text \<open>The multisig whose bit array is too short for the count it claims.\<close>

definition bitarray_overrun :: "MultisigSigner \<Rightarrow> bool" where
  "bitarray_overrun ms \<longleftrightarrow> (\<forall>d\<in>set (Modes ms). d = signModeAminoJSONName) \<and>
     bitCount ms = int (length (Members ms)) \<and>
     8 * length (BitarrayElems ms) < length (Members ms)"

lemma VerifyAminoJSON_Panic:
  "VerifyAminoJSON X g c n = Panic \<longleftrightarrow>
     (\<exists>b ms. AminoSignBytes g c n = Inr b \<and> Multisig (Signer g) = Some ms \<and> bitarray_overrun ms)"
  by (cases "AminoSignBytes g c n"; cases "Multisig (Signer g)")
     (auto simp add: VerifyAminoJSON_def verify_single_returns verifyAminoMultisig_Panic
       bitarray_overrun_def bitarray_covers_def)

end
