(* ===== verification/SignMode.thy ===== *)
theory SignMode
  imports Invariants AminoSignDoc
begin

text \<open>
  \<open>gentxvalidate/signmode.go\<close>: the dispatch on the declared sign mode, and
  \<open>CheckSignatureDirect\<close> of \<open>invariants.go\<close>. What the dispatch relies on is the locale
  \<open>mode_verifier\<close>: a verifier accepts exactly when the mode's sign bytes exist and are signed,
  and only for its own mode. \<open>signing_mode\<close> adds that the sign bytes determine what was signed.
  Both sign modes of the program are interpretations.
\<close>

section \<open>Dispatch\<close>

type_synonym modeVerifier = "ParsedGentx \<Rightarrow> string \<Rightarrow> uint64 \<Rightarrow> (gerr + bool) outcome"

definition genesisAccountNumber :: uint64 where
  "genesisAccountNumber = 0"

definition checkSignatureMode ::
  "ParsedGentx \<Rightarrow> Params \<Rightarrow> string \<Rightarrow> modeVerifier \<Rightarrow> Result outcome" where
  "checkSignatureMode g p invariant verify =
     (if ChainID p = [] then Ret (fail invariant ChainIDNotSet)
      else
        bindO (verify g (ChainID p) genesisAccountNumber) (\<lambda>v.
          case v of
            Inl e \<Rightarrow> Ret (fail invariant (ReasonErr e))
          | Inr ok \<Rightarrow>
              if \<not> ok then Ret (fail invariant (SignatureInvalid (ChainID p)))
              else Ret (pass invariant)))"

definition signModes :: "('pk, 'sc) externals \<Rightarrow> string \<rightharpoonup> string \<times> modeVerifier" where
  "signModes X =
     [signModeDirectName \<mapsto> (InvSignatureDirect, VerifyDirect X),
      signModeAminoJSONName \<mapsto> (InvSignatureAminoJSON, VerifyAminoJSON X)]"

definition CheckSignature ::
  "('pk, 'sc) externals \<Rightarrow> ParsedGentx \<Rightarrow> Params \<Rightarrow> Result outcome" where
  "CheckSignature X g p =
     (case signModes X (Mode (Signer g)) of
        None \<Rightarrow> Ret (fail InvSignatureUnsupportedMode (NoVerifier (Mode (Signer g))))
      | Some (invariant, verify) \<Rightarrow> checkSignatureMode g p invariant verify)"

definition CheckSignatureDirect ::
  "('pk, 'sc) externals \<Rightarrow> ParsedGentx \<Rightarrow> Params \<Rightarrow> Result outcome" where
  "CheckSignatureDirect X g p = checkSignatureMode g p InvSignatureDirect (VerifyDirect X)"

section \<open>The contract of a verifier\<close>

lemma fail_not_pass: "fail j r \<noteq> pass i"
  by (metis pass_fail_simps(1,2))

locale mode_verifier =
  fixes verify :: modeVerifier
    and sign_bytes :: "ParsedGentx \<Rightarrow> string \<Rightarrow> uint64 \<Rightarrow> gerr + bytes"
    and signed :: "ParsedGentx \<Rightarrow> bytes \<Rightarrow> bool"
    and mode :: string
  assumes accepts: "verify g c n = Ret (Inr True) \<longleftrightarrow> (\<exists>b. sign_bytes g c n = Inr b \<and> signed g b)"
    and own_mode: "sign_bytes g c n = Inr b \<Longrightarrow> Mode (Signer g) = mode"
begin

text \<open>The four outcomes of the verifier and the result of each.\<close>

lemma check_cases:
  "checkSignatureMode g p i verify =
     (if ChainID p = [] then Ret (fail i ChainIDNotSet)
      else case verify g (ChainID p) genesisAccountNumber of
          Panic \<Rightarrow> Panic
        | Ret (Inl e) \<Rightarrow> Ret (fail i (ReasonErr e))
        | Ret (Inr False) \<Rightarrow> Ret (fail i (SignatureInvalid (ChainID p)))
        | Ret (Inr True) \<Rightarrow> Ret (pass i))"
  by (simp add: checkSignatureMode_def bindO_def split: outcome.split sum.split bool.split)

lemma check_returns:
  "checkSignatureMode g p i verify = Panic \<longleftrightarrow>
     ChainID p \<noteq> [] \<and> verify g (ChainID p) genesisAccountNumber = Panic"
  by (simp add: check_cases split: outcome.split sum.split bool.split)

lemma check_result:
  "checkSignatureMode g p i verify = Ret r \<Longrightarrow> Invariant r = i \<and>
   (OK r \<longleftrightarrow> ChainID p \<noteq> [] \<and> verify g (ChainID p) genesisAccountNumber = Ret (Inr True))"
  unfolding check_cases by (simp split: if_splits outcome.splits sum.splits bool.splits) auto

lemma check_OK:
  "checkSignatureMode g p i verify = Ret r \<Longrightarrow>
   OK r \<longleftrightarrow> ChainID p \<noteq> [] \<and> (\<exists>b. sign_bytes g (ChainID p) genesisAccountNumber = Inr b \<and> signed g b)"
  using check_result [of g p i r] by (simp add: accepts)

lemma check_pass:
  assumes "ChainID p \<noteq> []" "sign_bytes g (ChainID p) genesisAccountNumber = Inr b" "signed g b"
  shows "checkSignatureMode g p i verify = Ret (pass i)"
proof -
  have "verify g (ChainID p) genesisAccountNumber = Ret (Inr True)"
    using assms(2,3) by (auto simp add: accepts)
  with assms(1) show ?thesis by (simp add: check_cases)
qed

end

text \<open>The sign bytes of admissible inputs determine the chain id, the account and the content.\<close>

locale signing_mode = mode_verifier +
  fixes admissible :: "ParsedGentx \<Rightarrow> string \<Rightarrow> bytes \<Rightarrow> bool"
    and same :: "ParsedGentx \<Rightarrow> ParsedGentx \<Rightarrow> bool"
  assumes determines:
    "sign_bytes g c n = Inr b \<Longrightarrow> sign_bytes g' c' n' = Inr b \<Longrightarrow> admissible g c b \<Longrightarrow>
     admissible g' c' b \<Longrightarrow> c = c' \<and> n = n' \<and> same g g'"
begin

text \<open>
  Sign bytes made for one chain and content are the bytes of no other: a signature over them says
  nothing about another chain, another account number or a modified gentx.
\<close>

lemma other_bytes:
  assumes "sign_bytes g c n = Inr b" "sign_bytes g' c' n' = Inr b'"
    and "admissible g c b" "admissible g' c' b'" "c \<noteq> c' \<or> n \<noteq> n' \<or> \<not> same g g'"
  shows "b \<noteq> b'"
  using assms determines by blast

end

lemma DirectSignBytes_mode: "DirectSignBytes g c n = Inr b \<Longrightarrow> Mode (Signer g) = signModeDirectName"
  by (auto simp add: DirectSignBytes_def split: if_splits)

lemma AminoSignBytes_mode: "AminoSignBytes g c n = Inr b \<Longrightarrow> Mode (Signer g) = signModeAminoJSONName"
  by (simp add: AminoSignBytes_tree)

definition direct_admissible :: "ParsedGentx \<Rightarrow> string \<Rightarrow> bytes \<Rightarrow> bool" where
  "direct_admissible g c b \<longleftrightarrow> length b < 2 ^ 64"

definition amino_admissible :: "ParsedGentx \<Rightarrow> string \<Rightarrow> bytes \<Rightarrow> bool" where
  "amino_admissible g c b \<longleftrightarrow> gentx_utf8 g \<and> utf8_valid c"

lemma DirectSignBytes_inject:
  assumes "DirectSignBytes g c n = Inr b" "DirectSignBytes g' c' n' = Inr b" "length b < 2 ^ 64"
  shows "c = c' \<and> n = n' \<and> same_signed g g'"
  using assms by (intro sign_doc_inject) (auto simp add: DirectSignBytes_fields fits_def)

interpretation direct: signing_mode "VerifyDirect X" DirectSignBytes "single_signed X"
  signModeDirectName direct_admissible same_signed
proof unfold_locales
  show "VerifyDirect X g c n = Ret (Inr True) \<longleftrightarrow>
      (\<exists>b. DirectSignBytes g c n = Inr b \<and> single_signed X g b)" for g c n
    by (rule VerifyDirect_True)
  show "DirectSignBytes g c n = Inr b \<Longrightarrow> Mode (Signer g) = signModeDirectName" for g c n b
    by (rule DirectSignBytes_mode)
  show "c = c' \<and> n = n' \<and> same_signed g g'"
    if "DirectSignBytes g c n = Inr b" "DirectSignBytes g' c' n' = Inr b" "direct_admissible g c b"
    for g c n b g' c' n'
    using that by (intro DirectSignBytes_inject) (simp_all add: direct_admissible_def)
qed

interpretation amino: signing_mode "VerifyAminoJSON X" AminoSignBytes "amino_signed X"
  signModeAminoJSONName amino_admissible same_amino
proof unfold_locales
  show "VerifyAminoJSON X g c n = Ret (Inr True) \<longleftrightarrow>
      (\<exists>b. AminoSignBytes g c n = Inr b \<and> amino_signed X g b)" for g c n
    by (rule VerifyAminoJSON_True)
  show "AminoSignBytes g c n = Inr b \<Longrightarrow> Mode (Signer g) = signModeAminoJSONName" for g c n b
    by (rule AminoSignBytes_mode)
  show "c = c' \<and> n = n' \<and> same_amino g g'"
    if "AminoSignBytes g c n = Inr b" "AminoSignBytes g' c' n' = Inr b" "amino_admissible g c b"
      "amino_admissible g' c' b" for g c n b g' c' n'
    using that by (intro AminoSignBytes_inject [of g g' c c' n b n']) (simp_all add: amino_admissible_def)
qed

section \<open>The signature check\<close>

text \<open>The condition the check stands for.\<close>

definition signature_ok :: "('pk, 'sc) externals \<Rightarrow> ParsedGentx \<Rightarrow> Params \<Rightarrow> bool" where
  "signature_ok X g p \<longleftrightarrow> ChainID p \<noteq> [] \<and>
     ((\<exists>b. DirectSignBytes g (ChainID p) genesisAccountNumber = Inr b \<and> single_signed X g b) \<or>
      (\<exists>b. AminoSignBytes g (ChainID p) genesisAccountNumber = Inr b \<and> amino_signed X g b))"

lemma mode_names_differ [simp]:
  "signModeAminoJSONName \<noteq> signModeDirectName" "signModeDirectName \<noteq> signModeAminoJSONName"
  by (simp_all add: signModeAminoJSONName_def signModeDirectName_def)

lemma CheckSignature_cases:
  "CheckSignature X g p =
     (if Mode (Signer g) = signModeDirectName
      then checkSignatureMode g p InvSignatureDirect (VerifyDirect X)
      else if Mode (Signer g) = signModeAminoJSONName
      then checkSignatureMode g p InvSignatureAminoJSON (VerifyAminoJSON X)
      else Ret (fail InvSignatureUnsupportedMode (NoVerifier (Mode (Signer g)))))"
  by (simp add: CheckSignature_def signModes_def)

lemma CheckSignature_OK:
  assumes "CheckSignature X g p = Ret r"
  shows "OK r \<longleftrightarrow> signature_ok X g p"
proof (cases "Mode (Signer g) = signModeDirectName")
  case True
  then have "AminoSignBytes g (ChainID p) genesisAccountNumber \<noteq> Inr b" for b
    using AminoSignBytes_mode by fastforce
  with True assms direct.check_OK show ?thesis
    by (fastforce simp add: CheckSignature_cases signature_ok_def)
next
  case False
  then have d: "DirectSignBytes g (ChainID p) genesisAccountNumber \<noteq> Inr b" for b
    using DirectSignBytes_mode by blast
  show ?thesis
  proof (cases "Mode (Signer g) = signModeAminoJSONName")
    case True
    with assms d amino.check_OK show ?thesis
      by (fastforce simp add: CheckSignature_cases signature_ok_def)
  next
    case other: False
    with False assms d AminoSignBytes_mode show ?thesis
      by (fastforce simp add: CheckSignature_cases signature_ok_def)
  qed
qed

text \<open>
  The only run that does not return: an amino multisig whose bit array is shorter than the bits it
  claims, on a gentx whose sign bytes exist.
\<close>

definition panics :: "ParsedGentx \<Rightarrow> Params \<Rightarrow> bool" where
  "panics g p \<longleftrightarrow> ChainID p \<noteq> [] \<and> Mode (Signer g) = signModeAminoJSONName \<and>
     ConsensusPubKeyTypeURL (Msg g) = ed25519PubKeyTypeURL \<and>
     (\<exists>ms. Multisig (Signer g) = Some ms \<and> bitarray_overrun ms)"

lemma CheckSignature_Panic: "CheckSignature X g p = Panic \<longleftrightarrow> panics g p"
proof (cases "Mode (Signer g) = signModeDirectName")
  case True
  then show ?thesis
    by (auto simp add: CheckSignature_cases panics_def direct.check_returns VerifyDirect_returns)
next
  case False
  then show ?thesis
    by (auto simp add: CheckSignature_cases panics_def amino.check_returns VerifyAminoJSON_Panic
        AminoSignBytes_tree)
qed

end
