(* ===== verification/GoUnmarshal.thy ===== *)
theory GoUnmarshal
  imports GoJson
begin

text \<open>
  \<open>json.Unmarshal\<close> into Go structs. A struct is a table of its fields, each with the decoder of
  its type; a key selects the field with that exact name, else the first one whose name matches
  case-insensitively, else nothing. A field keeps its value on \<open>null\<close>, repeated keys decode into
  the value left by the earlier ones, and a value of the wrong kind is an error of the whole call
  (the package reports it after it has read the document, so no caller sees a partial value).

  A slice carries the stale elements behind its length: decoding into it again reuses them.
\<close>

section \<open>Field names\<close>

text \<open>
  The package folds names to the smallest rune of their case orbit. The field names of the
  program are ASCII, so only the two non-ASCII runes whose orbit has an ASCII member matter:
  U+017F (s) and U+212A (k). Any other rune keeps its bytes here and matches no name.
\<close>

definition fold_rune :: "nat \<Rightarrow> string" where
  "fold_rune r =
     (if 97 \<le> r \<and> r \<le> 122 then [char_of (r - 32)]
      else if r = 383 then ''S'' else if r = 8490 then ''K'' else encode_rune r)"

definition fold_name :: "string \<Rightarrow> string" where
  "fold_name s = concat (map fold_rune (runes s))"

definition find_name :: "string list \<Rightarrow> string \<Rightarrow> string option" where
  "find_name names k =
     (if k \<in> set names then Some k else find (\<lambda>n. fold_name n = fold_name k) names)"

section \<open>Decoders\<close>

text \<open>The source text of the value, its tree, and the value decoded into.\<close>

type_synonym 'a decoder = "string \<Rightarrow> json \<Rightarrow> 'a \<Rightarrow> 'a option"

type_synonym 'a slice = "'a list \<times> 'a list"

definition dec_string :: "string decoder" where
  "dec_string raw v s = (case v of JStr t \<Rightarrow> Some t | JNull \<Rightarrow> Some s | _ \<Rightarrow> None)"

definition dec_raw :: "string decoder" where
  "dec_raw raw v s = Some raw"

definition dec_uint32 :: "uint32 decoder" where
  "dec_uint32 raw v x =
     (case v of
        JNum n \<Rightarrow>
          (case ParseUint n of
             Some u \<Rightarrow> if u < 2 ^ 32 then Some (ucast u) else None
           | None \<Rightarrow> None)
      | JNull \<Rightarrow> Some x
      | _ \<Rightarrow> None)"

text \<open>\<open>strconv.ParseInt(s, 10, 64)\<close>.\<close>

definition ParseInt :: "string \<Rightarrow> int option" where
  "ParseInt s =
     (case big_SetString s of
        Some n \<Rightarrow> if - (2 ^ 63) \<le> n \<and> n < 2 ^ 63 then Some n else None
      | None \<Rightarrow> None)"

definition dec_int :: "int decoder" where
  "dec_int raw v x =
     (case v of JNum n \<Rightarrow> ParseInt n | JNull \<Rightarrow> Some x | _ \<Rightarrow> None)"

fun dec_elems :: "'a decoder \<Rightarrow> 'a \<Rightarrow> (string \<times> json) list \<Rightarrow> 'a list \<Rightarrow> 'a list option" where
  "dec_elems d zero [] old = Some []"
| "dec_elems d zero (rv # vs) old =
     Option.bind (d (fst rv) (snd rv) (case old of [] \<Rightarrow> zero | b # _ \<Rightarrow> b)) (\<lambda>x.
       map_option (\<lambda>xs. x # xs) (dec_elems d zero vs (tl old)))"

definition dec_slice :: "'a decoder \<Rightarrow> 'a \<Rightarrow> 'a slice decoder" where
  "dec_slice d zero raw v sl =
     (case v of
        JNull \<Rightarrow> Some ([], [])
      | JArr vs \<Rightarrow>
          if vs = [] then Some ([], [])
          else map_option (\<lambda>xs. (xs, drop (length vs) (fst sl @ snd sl)))
                 (dec_elems d zero vs (fst sl @ snd sl))
      | _ \<Rightarrow> None)"

type_synonym 'a fields = "(string \<times> 'a decoder) list"

definition field :: "string \<Rightarrow> ('a \<Rightarrow> 'f) \<Rightarrow> (('f \<Rightarrow> 'f) \<Rightarrow> 'a \<Rightarrow> 'a) \<Rightarrow> 'f decoder \<Rightarrow> string \<times> 'a decoder"
  where "field n get put d =
    (n, \<lambda>raw v x. map_option (\<lambda>f. put (\<lambda>_. f) x) (d raw v (get x)))"

definition dec_member :: "'a fields \<Rightarrow> string \<Rightarrow> 'a decoder" where
  "dec_member fs k raw v x =
     (case find_name (map fst fs) k of
        None \<Rightarrow> Some x
      | Some n \<Rightarrow> (case map_of fs n of None \<Rightarrow> Some x | Some d \<Rightarrow> d raw v x))"

fun dec_members :: "'a fields \<Rightarrow> (string \<times> string \<times> json) list \<Rightarrow> 'a \<Rightarrow> 'a option" where
  "dec_members fs [] x = Some x"
| "dec_members fs (m # ms) x =
     Option.bind (dec_member fs (fst m) (fst (snd m)) (snd (snd m)) x) (dec_members fs ms)"

definition dec_struct :: "'a fields \<Rightarrow> 'a decoder" where
  "dec_struct fs raw v x =
     (case v of JNull \<Rightarrow> Some x | JObj ms \<Rightarrow> dec_members fs ms x | _ \<Rightarrow> None)"

definition Unmarshal :: "'a fields \<Rightarrow> string \<Rightarrow> 'a \<Rightarrow> 'a option" where
  "Unmarshal fs s zero = Option.bind (parse_json s) (\<lambda>v. dec_struct fs s v zero)"

section \<open>Strings of a document are valid UTF-8\<close>

fun json_utf8 :: "json \<Rightarrow> bool" where
  "json_utf8 (JStr s) = utf8_valid s"
| "json_utf8 (JArr vs) = list_all (\<lambda>v. json_utf8 (snd v)) vs"
| "json_utf8 (JObj ms) = list_all (\<lambda>m. utf8_valid (fst m) \<and> json_utf8 (snd (snd m))) ms"
| "json_utf8 _ = True"

lemma elems_utf8:
  assumes "\<And>s v r. pv s = Some (v, r) \<Longrightarrow> json_utf8 v"
  shows "elems n pv s = Some (vs, t) \<Longrightarrow> list_all (\<lambda>v. json_utf8 (snd v)) vs"
  by (induction n arbitrary: s vs)
     (auto simp add: Let_def assms split: option.splits list.splits if_splits)

lemma pkey_utf8: "pkey s = Some (k, t) \<Longrightarrow> utf8_valid k"
  by (auto simp add: pkey_def pstr_utf8 split: list.splits if_splits option.splits)

lemma members_utf8:
  assumes "\<And>s v r. pv s = Some (v, r) \<Longrightarrow> json_utf8 v"
  shows "members n pv s = Some (ms, t) \<Longrightarrow>
    list_all (\<lambda>m. utf8_valid (fst m) \<and> json_utf8 (snd (snd m))) ms"
  by (induction n arbitrary: s ms)
     (auto simp add: Let_def assms pkey_utf8 split: option.splits list.splits if_splits)

lemma pword_value: "pword w v s = Some (x, t) \<Longrightarrow> x = v"
  by (induction w v s rule: pword.induct) (auto split: if_splits)

lemma pscalar_utf8: "pscalar s = Some (v, t) \<Longrightarrow> json_utf8 v"
  by (cases s) (auto simp add: pscalar_def pstr_utf8 dest: pword_value split: if_splits)

lemma pcontainer_utf8:
  assumes "\<And>f s v r. pv = Some f \<Longrightarrow> f s = Some (v, r) \<Longrightarrow> json_utf8 v"
  shows "pcontainer pv s = Some (v, t) \<Longrightarrow> json_utf8 v"
  using assms
  by (cases s) (auto simp add: parray_def pobject_def simp del: elems.simps members.simps
      split: if_splits list.splits bind_splits dest!: pscalar_utf8 elems_utf8 [rotated] members_utf8 [rotated])

lemma pval_utf8: "pval d s = Some (v, t) \<Longrightarrow> json_utf8 v"
proof (induction d arbitrary: s v t)
  case 0
  then show ?case using pcontainer_utf8 [of None] by simp
next
  case (Suc d)
  show ?case
    by (rule pcontainer_utf8 [of "Some (pval d)" s v t]) (use Suc in auto)
qed

lemma parse_json_utf8: "parse_json s = Some v \<Longrightarrow> json_utf8 v"
  by (auto simp add: parse_json_def dest: pval_utf8 split: option.splits if_splits)

section \<open>Invariants of decoding\<close>

text \<open>
  A decoder keeps an invariant when every value it accepts, decoded into a value that has it,
  leaves one that has it.
\<close>

definition keeps :: "('a \<Rightarrow> bool) \<Rightarrow> 'a decoder \<Rightarrow> bool" where
  "keeps P d \<longleftrightarrow> (\<forall>raw v x y. json_utf8 v \<longrightarrow> P x \<longrightarrow> d raw v x = Some y \<longrightarrow> P y)"

lemma keepsD: "keeps P d \<Longrightarrow> json_utf8 v \<Longrightarrow> P x \<Longrightarrow> d raw v x = Some y \<Longrightarrow> P y"
  by (auto simp add: keeps_def)

lemma keeps_True: "keeps (\<lambda>_. True) d"
  by (simp add: keeps_def)

lemma keeps_string: "keeps utf8_valid dec_string"
  by (auto simp add: keeps_def dec_string_def split: json.splits)

lemma keeps_elems:
  assumes "keeps P d" "P zero"
  shows "list_all (\<lambda>v. json_utf8 (snd v)) vs \<Longrightarrow> list_all P old \<Longrightarrow>
    dec_elems d zero vs old = Some xs \<Longrightarrow> list_all P xs"
proof (induction vs arbitrary: old xs)
  case (Cons v vs)
  then obtain x ys where x: "d (fst v) (snd v) (case old of [] \<Rightarrow> zero | b # _ \<Rightarrow> b) = Some x"
    and ys: "dec_elems d zero vs (tl old) = Some ys" and xs: "xs = x # ys"
    by (auto split: bind_splits)
  have "P (case old of [] \<Rightarrow> zero | b # _ \<Rightarrow> b)" using Cons.prems(2) assms(2) by (cases old) auto
  then have "P x" using keepsD [OF assms(1) _ _ x] Cons.prems(1) by simp
  moreover have "list_all P (tl old)" using Cons.prems(2) by (cases old) auto
  then have "list_all P ys" using Cons.IH [OF _ _ ys] Cons.prems(1) by simp
  ultimately show ?case by (simp add: xs)
qed simp

definition slice_all :: "('a \<Rightarrow> bool) \<Rightarrow> 'a slice \<Rightarrow> bool" where
  "slice_all P sl \<longleftrightarrow> list_all P (fst sl) \<and> list_all P (snd sl)"

lemma slice_all_Nil [simp]: "slice_all P ([], [])"
  by (simp add: slice_all_def)

lemma keeps_slice:
  assumes "keeps P d" "P zero"
  shows "keeps (slice_all P) (dec_slice d zero)"
  unfolding keeps_def [of "slice_all P"]
proof (intro allI impI)
  fix raw v x y
  assume v: "json_utf8 v" and x: "slice_all P x" and y: "dec_slice d zero raw v x = Some y"
  let ?old = "fst x @ snd x"
  have old: "list_all P ?old" using x by (simp add: slice_all_def)
  show "slice_all P y"
  proof (cases "\<exists>vs. v = JArr vs \<and> vs \<noteq> []")
    case True
    then obtain vs xs where vs: "v = JArr vs" "dec_elems d zero vs ?old = Some xs"
        "y = (xs, drop (length vs) ?old)"
      using y by (auto simp add: dec_slice_def)
    then have "list_all P xs" using keeps_elems [OF assms _ old vs(2)] v by simp
    moreover have "list_all P (drop (length vs) ?old)"
      using old by (auto simp add: list_all_iff simp del: drop_append dest: in_set_dropD)
    ultimately show ?thesis by (simp add: vs(3) slice_all_def)
  next
    case False
    with y show ?thesis by (auto simp add: dec_slice_def split: json.splits if_splits)
  qed
qed

lemma keeps_members:
  assumes "list_all (\<lambda>f. keeps P (snd f)) fs"
  shows "list_all (\<lambda>m. utf8_valid (fst m) \<and> json_utf8 (snd (snd m))) ms \<Longrightarrow> P x \<Longrightarrow>
    dec_members fs ms x = Some y \<Longrightarrow> P y"
proof (induction ms arbitrary: x)
  case (Cons m ms)
  then obtain z where z: "dec_member fs (fst m) (fst (snd m)) (snd (snd m)) x = Some z"
      "dec_members fs ms z = Some y"
    by (auto split: bind_splits)
  have "keeps P d" if "map_of fs n = Some d" for n d
    using that assms by (auto simp add: list_all_iff dest!: map_of_SomeD)
  then have "P z"
    using z(1) Cons.prems(1,2) by (auto simp add: dec_member_def keeps_def split: option.splits)
  with Cons z(2) show ?case by simp
qed simp

lemma keeps_struct: "list_all (\<lambda>f. keeps P (snd f)) fs \<Longrightarrow> keeps P (dec_struct fs)"
  unfolding keeps_def [of P "dec_struct fs"]
  by (auto simp add: dec_struct_def split: json.splits dest: keeps_members)

lemma keeps_field:
  assumes "keeps Q d" "\<And>x. P x \<Longrightarrow> Q (get x)" "\<And>f x. P x \<Longrightarrow> Q f \<Longrightarrow> P (put (\<lambda>_. f) x)"
  shows "keeps P (snd (field n get put d))"
  unfolding keeps_def
proof (intro allI impI)
  fix raw v x y
  assume "json_utf8 v" "P x" "snd (field n get put d) raw v x = Some y"
  then obtain f where f: "d raw v (get x) = Some f" "y = put (\<lambda>_. f) x" "json_utf8 v" "P x"
    by (auto simp add: field_def)
  have "Q f" using keepsD [OF assms(1) f(3) assms(2) [OF f(4)] f(1)] .
  with f assms(3) show "P y" by simp
qed

lemma Unmarshal_keeps:
  "list_all (\<lambda>f. keeps P (snd f)) fs \<Longrightarrow> P zero \<Longrightarrow> Unmarshal fs s zero = Some x \<Longrightarrow> P x"
  by (auto simp add: Unmarshal_def split: bind_splits dest!: keeps_struct parse_json_utf8
      dest: keepsD)

end
