(* ===== verification/Decode.thy ===== *)
theory Decode
  imports GoUnmarshal AminoSignDoc
begin

text \<open>
  \<open>gentxvalidate/decode.go\<close>: the JSON shapes of a gentx as tables of fields, \<open>Decode\<close> and the
  two decoders of the signer. The shape of a sign mode nests in itself, so its decoder is a
  recursion over the tree. What a decoded gentx satisfies is collected in \<open>gentx_wf\<close>: valid
  text everywhere, and for a multisig a threshold in range and at least one mode.
\<close>

section \<open>The JSON shapes\<close>

definition coinJSON :: "Coin fields" where
  "coinJSON =
     [field ''denom'' Denom Denom_update dec_string, field ''amount'' Amount Amount_update dec_string]"

definition zeroCoin :: Coin where
  "zeroCoin = \<lparr>Denom = [], Amount = []\<rparr>"

record AnyKey =
  AnyType :: string
  AnyKeyText :: string

definition anyKeyJSON :: "AnyKey fields" where
  "anyKeyJSON =
     [field ''@type'' AnyType AnyType_update dec_string,
      field ''key'' AnyKeyText AnyKeyText_update dec_string]"

definition zeroAnyKey :: AnyKey where
  "zeroAnyKey = \<lparr>AnyType = [], AnyKeyText = []\<rparr>"

definition descriptionJSON :: "Description fields" where
  "descriptionJSON =
     [field ''moniker'' Moniker Moniker_update dec_string,
      field ''identity'' Identity Identity_update dec_string,
      field ''website'' Website Website_update dec_string,
      field ''security_contact'' SecurityContact SecurityContact_update dec_string,
      field ''details'' Details Details_update dec_string]"

definition commissionJSON :: "CommissionRates fields" where
  "commissionJSON =
     [field ''rate'' Rate Rate_update dec_string,
      field ''max_rate'' MaxRate MaxRate_update dec_string,
      field ''max_change_rate'' MaxChangeRate MaxChangeRate_update dec_string]"

record MsgJSON =
  MType :: string
  MDescription :: Description
  MCommission :: CommissionRates
  MMinSelfDelegation :: string
  MDelegatorAddress :: string
  MValidatorAddress :: string
  MPubkey :: AnyKey
  MValue :: Coin

definition msgCreateValidatorJSON :: "MsgJSON fields" where
  "msgCreateValidatorJSON =
     [field ''@type'' MType MType_update dec_string,
      field ''description'' MDescription MDescription_update (dec_struct descriptionJSON),
      field ''commission'' MCommission MCommission_update (dec_struct commissionJSON),
      field ''min_self_delegation'' MMinSelfDelegation MMinSelfDelegation_update dec_string,
      field ''delegator_address'' MDelegatorAddress MDelegatorAddress_update dec_string,
      field ''validator_address'' MValidatorAddress MValidatorAddress_update dec_string,
      field ''pubkey'' MPubkey MPubkey_update (dec_struct anyKeyJSON),
      field ''value'' MValue MValue_update (dec_struct coinJSON)]"

definition zeroMsg :: MsgJSON where
  "zeroMsg =
     \<lparr>MType = [],
      MDescription = \<lparr>Moniker = [], Identity = [], Website = [], SecurityContact = [], Details = []\<rparr>,
      MCommission = \<lparr>Rate = [], MaxRate = [], MaxChangeRate = []\<rparr>,
      MMinSelfDelegation = [], MDelegatorAddress = [], MValidatorAddress = [],
      MPubkey = zeroAnyKey, MValue = zeroCoin\<rparr>"

record SignerPubKey =
  SPType :: string
  SPKey :: string
  SPThreshold :: uint32
  SPPublicKeys :: "AnyKey slice"

definition signerPubKeyJSON :: "SignerPubKey fields" where
  "signerPubKeyJSON =
     [field ''@type'' SPType SPType_update dec_string,
      field ''key'' SPKey SPKey_update dec_string,
      field ''threshold'' SPThreshold SPThreshold_update dec_uint32,
      field ''public_keys'' SPPublicKeys SPPublicKeys_update
        (dec_slice (dec_struct anyKeyJSON) zeroAnyKey)]"

subsection \<open>Sign modes\<close>

text \<open>
  \<open>modeInfoJSON\<close>: the single mode, the bit array (extra bits and base64 elements) and the slice of
  component modes with its stale elements.
\<close>

record BitarrayJSON =
  BExtraBitsStored :: int
  BElems :: string

datatype modeInfo = ModeInfo
  (SingleMode: string) (MultiBitarray: BitarrayJSON)
  (ModeInfos: "modeInfo list") (StaleInfos: "modeInfo list")

definition zeroModeInfo :: modeInfo where
  "zeroModeInfo = ModeInfo [] \<lparr>BExtraBitsStored = 0, BElems = []\<rparr> [] []"

definition singleJSON :: "string fields" where
  "singleJSON = [(''mode'', dec_string)]"

definition bitarrayJSON :: "BitarrayJSON fields" where
  "bitarrayJSON =
     [field ''extra_bits_stored'' BExtraBitsStored BExtraBitsStored_update dec_int,
      field ''elems'' BElems BElems_update dec_string]"

definition setSingle :: "modeInfo \<Rightarrow> string \<Rightarrow> modeInfo" where
  "setSingle x s = ModeInfo s (MultiBitarray x) (ModeInfos x) (StaleInfos x)"

definition setBitarray :: "modeInfo \<Rightarrow> BitarrayJSON \<Rightarrow> modeInfo" where
  "setBitarray x b = ModeInfo (SingleMode x) b (ModeInfos x) (StaleInfos x)"

definition setInfos :: "modeInfo \<Rightarrow> modeInfo slice \<Rightarrow> modeInfo" where
  "setInfos x sl = ModeInfo (SingleMode x) (MultiBitarray x) (fst sl) (snd sl)"

text \<open>A mode info, its members, the members of its \<open>multi\<close>, and the elements of its slice.\<close>

fun dec_modeInfo :: "json \<Rightarrow> modeInfo \<Rightarrow> modeInfo option"
  and dec_modeInfo_members :: "(string \<times> string \<times> json) list \<Rightarrow> modeInfo \<Rightarrow> modeInfo option"
  and dec_multi_members :: "(string \<times> string \<times> json) list \<Rightarrow> modeInfo \<Rightarrow> modeInfo option"
  and dec_modeInfos :: "(string \<times> json) list \<Rightarrow> modeInfo list \<Rightarrow> modeInfo list option"
where
  "dec_modeInfo v x =
     (case v of JNull \<Rightarrow> Some x | JObj ms \<Rightarrow> dec_modeInfo_members ms x | _ \<Rightarrow> None)"
| "dec_modeInfo_members [] x = Some x"
| "dec_modeInfo_members ((k, raw, v) # ms) x =
     Option.bind
       (case find_name [''single'', ''multi''] k of
          None \<Rightarrow> Some x
        | Some n \<Rightarrow>
            if n = ''single'' then
              map_option (setSingle x) (dec_struct singleJSON raw v (SingleMode x))
            else
              (case v of JNull \<Rightarrow> Some x | JObj us \<Rightarrow> dec_multi_members us x | _ \<Rightarrow> None))
       (\<lambda>x. dec_modeInfo_members ms x)"
| "dec_multi_members [] x = Some x"
| "dec_multi_members ((k, raw, v) # ms) x =
     Option.bind
       (case find_name [''bitarray'', ''mode_infos''] k of
          None \<Rightarrow> Some x
        | Some n \<Rightarrow>
            if n = ''bitarray'' then
              map_option (setBitarray x) (dec_struct bitarrayJSON raw v (MultiBitarray x))
            else
              (case v of
                 JNull \<Rightarrow> Some (setInfos x ([], []))
               | JArr vs \<Rightarrow>
                   if vs = [] then Some (setInfos x ([], []))
                   else
                     map_option
                       (\<lambda>xs. setInfos x (xs, drop (length vs) (ModeInfos x @ StaleInfos x)))
                       (dec_modeInfos vs (ModeInfos x @ StaleInfos x))
               | _ \<Rightarrow> None))
       (\<lambda>x. dec_multi_members ms x)"
| "dec_modeInfos [] old = Some []"
| "dec_modeInfos ((raw, v) # vs) old =
     Option.bind (dec_modeInfo v (case old of [] \<Rightarrow> zeroModeInfo | x # _ \<Rightarrow> x)) (\<lambda>x.
       map_option (\<lambda>xs. x # xs) (dec_modeInfos vs (tl old)))"

subsection \<open>The document\<close>

record SignerInfoJSON =
  SIPublicKey :: SignerPubKey
  SIModeInfo :: modeInfo
  SISequence :: string

definition signerInfoJSON :: "SignerInfoJSON fields" where
  "signerInfoJSON =
     [field ''public_key'' SIPublicKey SIPublicKey_update (dec_struct signerPubKeyJSON),
      field ''mode_info'' SIModeInfo SIModeInfo_update (\<lambda>raw. dec_modeInfo),
      field ''sequence'' SISequence SISequence_update dec_string]"

definition zeroSignerInfo :: SignerInfoJSON where
  "zeroSignerInfo =
     \<lparr>SIPublicKey = \<lparr>SPType = [], SPKey = [], SPThreshold = 0, SPPublicKeys = ([], [])\<rparr>,
      SIModeInfo = zeroModeInfo, SISequence = []\<rparr>"

record BodyJSON =
  JMessages :: "string slice"
  JMemo :: string
  JTimeoutHeight :: string
  JExtensionOptions :: "string slice"
  JNonCriticalExtensionOptions :: "string slice"

definition bodyJSON :: "BodyJSON fields" where
  "bodyJSON =
     [field ''messages'' JMessages JMessages_update (dec_slice dec_raw []),
      field ''memo'' JMemo JMemo_update dec_string,
      field ''timeout_height'' JTimeoutHeight JTimeoutHeight_update dec_string,
      field ''extension_options'' JExtensionOptions JExtensionOptions_update (dec_slice dec_raw []),
      field ''non_critical_extension_options'' JNonCriticalExtensionOptions
        JNonCriticalExtensionOptions_update (dec_slice dec_raw [])]"

record FeeJSON =
  FJAmount :: "Coin slice"
  FJGasLimit :: string
  FJPayer :: string
  FJGranter :: string

definition feeJSON :: "FeeJSON fields" where
  "feeJSON =
     [field ''amount'' FJAmount FJAmount_update (dec_slice (dec_struct coinJSON) zeroCoin),
      field ''gas_limit'' FJGasLimit FJGasLimit_update dec_string,
      field ''payer'' FJPayer FJPayer_update dec_string,
      field ''granter'' FJGranter FJGranter_update dec_string]"

record AuthInfoJSON =
  JSignerInfos :: "SignerInfoJSON slice"
  JFee :: FeeJSON

definition authInfoJSON :: "AuthInfoJSON fields" where
  "authInfoJSON =
     [field ''signer_infos'' JSignerInfos JSignerInfos_update
        (dec_slice (dec_struct signerInfoJSON) zeroSignerInfo),
      field ''fee'' JFee JFee_update (dec_struct feeJSON)]"

text \<open>A nil raw message is the empty text; one that was set is never empty.\<close>

record GentxJSON =
  LegacyType :: string
  LegacyValue :: string
  JBody :: BodyJSON
  JAuthInfo :: AuthInfoJSON
  JSignatures :: "string slice"

definition gentxJSON :: "GentxJSON fields" where
  "gentxJSON =
     [field ''type'' LegacyType LegacyType_update dec_string,
      field ''value'' LegacyValue LegacyValue_update dec_raw,
      field ''body'' JBody JBody_update (dec_struct bodyJSON),
      field ''auth_info'' JAuthInfo JAuthInfo_update (dec_struct authInfoJSON),
      field ''signatures'' JSignatures JSignatures_update (dec_slice dec_string [])]"

definition zeroGentx :: GentxJSON where
  "zeroGentx =
     \<lparr>LegacyType = [], LegacyValue = [],
      JBody = \<lparr>JMessages = ([], []), JMemo = [], JTimeoutHeight = [], JExtensionOptions = ([], []),
               JNonCriticalExtensionOptions = ([], [])\<rparr>,
      JAuthInfo = \<lparr>JSignerInfos = ([], []),
                   JFee = \<lparr>FJAmount = ([], []), FJGasLimit = [], FJPayer = [], FJGranter = []\<rparr>\<rparr>,
      JSignatures = ([], [])\<rparr>"

section \<open>Decoding\<close>

definition parseUint :: "string \<Rightarrow> string \<Rightarrow> gerr + uint64" where
  "parseUint s name =
     (if s = [] then Inr 0
      else case ParseUint s of None \<Rightarrow> Inl (ErrParseUint name) | Some v \<Rightarrow> Inr v)"

text \<open>\<open>base64.StdEncoding.DecodeString\<close> with the error it is wrapped in.\<close>

definition decodeBase64 :: "string \<Rightarrow> gerr \<Rightarrow> gerr + bytes" where
  "decodeBase64 s e = (case DecodeString s of None \<Rightarrow> Inl e | Some b \<Rightarrow> Inr b)"

definition decodeMultisigSigner :: "SignerInfoJSON \<Rightarrow> gerr + MultisigSigner" where
  "decodeMultisigSigner si =
     (let pub = SIPublicKey si; mi = SIModeInfo si; keys = fst (SPPublicKeys pub) in
      if length keys = 0 then Inl ErrNoComponentKeys
      else if SPThreshold pub < 1 \<or> length keys < unat (SPThreshold pub)
      then Inl (ErrThresholdRange (SPThreshold pub) (length keys))
      else if length (ModeInfos mi) = 0 then Inl ErrNoModeInfos
      else
        bindE (decodeBase64 (BElems (MultiBitarray mi)) ErrBitarrayBase64) (\<lambda>elems.
        bindE (mapE (\<lambda>k. bindE (decodeBase64 (AnyKeyText k) ErrComponentPubKey) (\<lambda>pk.
                 Inr \<lparr>MemberTypeURL = AnyType k, MemberPubKey = pk\<rparr>)) keys) (\<lambda>members.
          let modes = map SingleMode (ModeInfos mi) in
          Inr \<lparr>Threshold = SPThreshold pub, Members = members, Modes = modes,
               BitarrayElems = elems, ExtraBitsStored = BExtraBitsStored (MultiBitarray mi)\<rparr>)))"

definition decodeSignerInfo :: "SignerInfoJSON \<Rightarrow> gerr + SignerInfo" where
  "decodeSignerInfo si =
     bindE (parseUint (SISequence si) ''sequence'') (\<lambda>sequence.
     if SPType (SIPublicKey si) \<noteq> legacyAminoPubKeyTypeURL then
       bindE (decodeBase64 (SPKey (SIPublicKey si)) ErrAccountPubKey) (\<lambda>pk.
         Inr \<lparr>PubKeyTypeURL = SPType (SIPublicKey si), PubKey = pk,
              Mode = SingleMode (SIModeInfo si), Sequence = sequence, Multisig = None\<rparr>)
     else
       bindE (decodeMultisigSigner si) (\<lambda>ms.
         Inr \<lparr>PubKeyTypeURL = SPType (SIPublicKey si), PubKey = [], Mode = Modes ms ! 0,
              Sequence = sequence, Multisig = Some ms\<rparr>))"

definition Decode :: "bytes \<Rightarrow> gerr + ParsedGentx" where
  "Decode data =
     (case Unmarshal gentxJSON (string_of data) zeroGentx of
        None \<Rightarrow> Inl ErrParseJSON
      | Some raw \<Rightarrow>
        let messages = fst (JMessages (JBody raw));
            signerInfos = fst (JSignerInfos (JAuthInfo raw));
            signatures = fst (JSignatures raw);
            fee = JFee (JAuthInfo raw)
        in
        if LegacyType raw \<noteq> [] \<and> 0 < length (LegacyValue raw)
        then Inl (ErrLegacyStdTx (LegacyType raw))
        else if length messages \<noteq> 1 then Inl (ErrMessageCount (length messages))
        else if length signerInfos \<noteq> 1 then Inl (ErrSignerInfoCount (length signerInfos))
        else if length signatures \<noteq> 1 then Inl (ErrSignatureCount (length signatures))
        else if 0 < length (fst (JExtensionOptions (JBody raw))) \<or>
                0 < length (fst (JNonCriticalExtensionOptions (JBody raw)))
        then Inl ErrExtensionOptions
        else case Unmarshal msgCreateValidatorJSON (messages ! 0) zeroMsg of
          None \<Rightarrow> Inl ErrParseMessage
        | Some msg \<Rightarrow>
          if MType msg \<noteq> MsgCreateValidatorTypeURL then Inl (ErrMessageType (MType msg))
          else
            bindE (decodeBase64 (AnyKeyText (MPubkey msg)) ErrConsensusPubKey) (\<lambda>consPubKey.
            bindE (decodeSignerInfo (signerInfos ! 0)) (\<lambda>signer.
            bindE (decodeBase64 (signatures ! 0) ErrSignatureBase64) (\<lambda>sig.
            bindE (parseUint (JTimeoutHeight (JBody raw)) ''timeout_height'') (\<lambda>timeoutHeight.
            bindE (parseUint (FJGasLimit fee) ''gas_limit'') (\<lambda>gasLimit.
              Inr \<lparr>Msg = \<lparr>MsgDescription = MDescription msg, MsgCommission = MCommission msg,
                          MsgMinSelfDelegation = MMinSelfDelegation msg,
                          DelegatorAddress = MDelegatorAddress msg,
                          ValidatorAddress = MValidatorAddress msg,
                          ConsensusPubKeyTypeURL = AnyType (MPubkey msg),
                          ConsensusPubKey = consPubKey, MsgValue = MValue msg\<rparr>,
                   Memo = JMemo (JBody raw), TimeoutHeight = timeoutHeight, Signer = signer,
                   TxFee = \<lparr>FeeAmount = fst (FJAmount fee), GasLimit = gasLimit,
                            Payer = FJPayer fee, Granter = FJGranter fee\<rparr>,
                   Signature = sig\<rparr>))))))"

section \<open>Decoded text\<close>

text \<open>The text of every shape is valid UTF-8, and the extra bits fit Go's \<open>int\<close>.\<close>

definition int64 :: "int \<Rightarrow> bool" where
  "int64 x \<longleftrightarrow> - (2 ^ 63) \<le> x \<and> x < 2 ^ 63"

definition anykey_utf8 :: "AnyKey \<Rightarrow> bool" where
  "anykey_utf8 k \<longleftrightarrow> utf8_valid (AnyType k) \<and> utf8_valid (AnyKeyText k)"

definition description_utf8 :: "Description \<Rightarrow> bool" where
  "description_utf8 d \<longleftrightarrow> utf8_valid (Moniker d) \<and> utf8_valid (Identity d) \<and>
     utf8_valid (Website d) \<and> utf8_valid (SecurityContact d) \<and> utf8_valid (Details d)"

definition rates_utf8 :: "CommissionRates \<Rightarrow> bool" where
  "rates_utf8 c \<longleftrightarrow> utf8_valid (Rate c) \<and> utf8_valid (MaxRate c) \<and> utf8_valid (MaxChangeRate c)"

definition msg_utf8 :: "MsgJSON \<Rightarrow> bool" where
  "msg_utf8 m \<longleftrightarrow> description_utf8 (MDescription m) \<and> rates_utf8 (MCommission m) \<and>
     utf8_valid (MMinSelfDelegation m) \<and> utf8_valid (MDelegatorAddress m) \<and>
     utf8_valid (MValidatorAddress m) \<and> anykey_utf8 (MPubkey m) \<and> coin_utf8 (MValue m)"

definition spk_utf8 :: "SignerPubKey \<Rightarrow> bool" where
  "spk_utf8 p \<longleftrightarrow> utf8_valid (SPType p) \<and> slice_all anykey_utf8 (SPPublicKeys p)"

definition bitarray_ok :: "BitarrayJSON \<Rightarrow> bool" where
  "bitarray_ok b \<longleftrightarrow> int64 (BExtraBitsStored b)"

fun mode_utf8 :: "modeInfo \<Rightarrow> bool" where
  "mode_utf8 (ModeInfo s b infos stale) \<longleftrightarrow> utf8_valid s \<and> bitarray_ok b \<and>
     list_all mode_utf8 infos \<and> list_all mode_utf8 stale"

definition si_utf8 :: "SignerInfoJSON \<Rightarrow> bool" where
  "si_utf8 si \<longleftrightarrow> spk_utf8 (SIPublicKey si) \<and> mode_utf8 (SIModeInfo si)"

definition feejson_utf8 :: "FeeJSON \<Rightarrow> bool" where
  "feejson_utf8 f \<longleftrightarrow> slice_all coin_utf8 (FJAmount f) \<and> utf8_valid (FJPayer f) \<and>
     utf8_valid (FJGranter f)"

definition auth_utf8 :: "AuthInfoJSON \<Rightarrow> bool" where
  "auth_utf8 a \<longleftrightarrow> slice_all si_utf8 (JSignerInfos a) \<and> feejson_utf8 (JFee a)"

definition body_utf8 :: "BodyJSON \<Rightarrow> bool" where
  "body_utf8 b \<longleftrightarrow> utf8_valid (JMemo b)"

definition doc_utf8 :: "GentxJSON \<Rightarrow> bool" where
  "doc_utf8 d \<longleftrightarrow> body_utf8 (JBody d) \<and> auth_utf8 (JAuthInfo d)"

lemma keeps_int: "keeps int64 dec_int"
  by (auto simp add: keeps_def dec_int_def ParseInt_def int64_def split: json.splits option.splits
      if_splits)

lemma keeps_coin: "keeps coin_utf8 (dec_struct coinJSON)"
  by (rule keeps_struct)
     (auto simp add: coinJSON_def coin_utf8_def intro!: keeps_field [OF keeps_string])

lemma keeps_anykey: "keeps anykey_utf8 (dec_struct anyKeyJSON)"
  by (rule keeps_struct)
     (auto simp add: anyKeyJSON_def anykey_utf8_def intro!: keeps_field [OF keeps_string])

lemma keeps_description: "keeps description_utf8 (dec_struct descriptionJSON)"
  by (rule keeps_struct)
     (auto simp add: descriptionJSON_def description_utf8_def intro!: keeps_field [OF keeps_string])

lemma keeps_rates: "keeps rates_utf8 (dec_struct commissionJSON)"
  by (rule keeps_struct)
     (auto simp add: commissionJSON_def rates_utf8_def intro!: keeps_field [OF keeps_string])

lemma keeps_msg: "list_all (\<lambda>f. keeps msg_utf8 (snd f)) msgCreateValidatorJSON"
  by (auto simp add: msgCreateValidatorJSON_def msg_utf8_def
      intro: keeps_field [OF keeps_string] keeps_field [OF keeps_True] keeps_field [OF keeps_description]
        keeps_field [OF keeps_rates] keeps_field [OF keeps_anykey] keeps_field [OF keeps_coin])

lemma zero_anykey [simp]: "anykey_utf8 zeroAnyKey" and zero_coin [simp]: "coin_utf8 zeroCoin"
  by (simp_all add: anykey_utf8_def zeroAnyKey_def coin_utf8_def zeroCoin_def)

lemma keeps_spk: "keeps spk_utf8 (dec_struct signerPubKeyJSON)"
  by (rule keeps_struct)
     (auto simp add: signerPubKeyJSON_def spk_utf8_def
       intro: keeps_field [OF keeps_string] keeps_field [OF keeps_True]
         keeps_field [OF keeps_slice [OF keeps_anykey zero_anykey]])

lemma keeps_bitarray: "keeps bitarray_ok (dec_struct bitarrayJSON)"
  by (rule keeps_struct)
     (auto simp add: bitarrayJSON_def bitarray_ok_def
       intro: keeps_field [OF keeps_int] keeps_field [OF keeps_True])

lemma keeps_single: "keeps utf8_valid (dec_struct singleJSON)"
  by (rule keeps_struct) (simp add: singleJSON_def keeps_string)

lemma zero_mode [simp]: "mode_utf8 zeroModeInfo"
  by (simp add: zeroModeInfo_def bitarray_ok_def int64_def)

lemma mode_utf8_iff:
  "mode_utf8 x \<longleftrightarrow> utf8_valid (SingleMode x) \<and> bitarray_ok (MultiBitarray x) \<and>
     list_all mode_utf8 (ModeInfos x) \<and> list_all mode_utf8 (StaleInfos x)"
  by (cases x) simp

lemma mode_utf8_single: "mode_utf8 x \<Longrightarrow> utf8_valid (SingleMode x)"
  by (cases x) simp

lemma mode_utf8_updates:
  "mode_utf8 x \<Longrightarrow> utf8_valid s \<Longrightarrow> mode_utf8 (setSingle x s)"
  "mode_utf8 x \<Longrightarrow> bitarray_ok b \<Longrightarrow> mode_utf8 (setBitarray x b)"
  "mode_utf8 x \<Longrightarrow> list_all mode_utf8 (fst sl) \<Longrightarrow> list_all mode_utf8 (snd sl) \<Longrightarrow>
   mode_utf8 (setInfos x sl)"
  by (simp_all add: setSingle_def setBitarray_def setInfos_def mode_utf8_iff)

lemma list_all_drop_append:
  "list_all P xs \<Longrightarrow> list_all P ys \<Longrightarrow> list_all P (drop n (xs @ ys))"
  by (auto simp add: list_all_iff simp del: drop_append dest!: in_set_dropD)

lemma dec_modeInfo_utf8:
  "json_utf8 v \<Longrightarrow> mode_utf8 x \<Longrightarrow> dec_modeInfo v x = Some y \<Longrightarrow> mode_utf8 y"
  "list_all (\<lambda>m. utf8_valid (fst m) \<and> json_utf8 (snd (snd m))) ms \<Longrightarrow> mode_utf8 x \<Longrightarrow>
   dec_modeInfo_members ms x = Some y \<Longrightarrow> mode_utf8 y"
  "list_all (\<lambda>m. utf8_valid (fst m) \<and> json_utf8 (snd (snd m))) ms \<Longrightarrow> mode_utf8 x \<Longrightarrow>
   dec_multi_members ms x = Some y \<Longrightarrow> mode_utf8 y"
  "list_all (\<lambda>v. json_utf8 (snd v)) vs \<Longrightarrow> list_all mode_utf8 xs \<Longrightarrow>
   dec_modeInfos vs xs = Some ys \<Longrightarrow> list_all mode_utf8 ys"
proof (induction v x and ms x and ms x and vs xs arbitrary: y and y and y and ys
    rule: dec_modeInfo_dec_modeInfo_members_dec_multi_members_dec_modeInfos.induct)
  case (1 v x)
  then show ?case by (cases v) auto
next
  case (3 k raw v ms x)
  from "3.prems"(3) obtain z where z:
    "(case find_name [''single'', ''multi''] k of None \<Rightarrow> Some x
      | Some n \<Rightarrow> if n = ''single'' then
          map_option (setSingle x) (dec_struct singleJSON raw v (SingleMode x))
        else (case v of JNull \<Rightarrow> Some x | JObj us \<Rightarrow> dec_multi_members us x | _ \<Rightarrow> None)) = Some z"
    and y: "dec_modeInfo_members ms z = Some y"
    by (auto simp only: dec_modeInfo_members.simps bind_eq_Some_conv)
  have v: "json_utf8 v" "list_all (\<lambda>m. utf8_valid (fst m) \<and> json_utf8 (snd (snd m))) ms" using "3.prems"(1) by auto
  have "mode_utf8 z"
  proof (cases "find_name [''single'', ''multi''] k")
    case (Some n)
    show ?thesis
    proof (cases "n = ''single''")
      case True
      then show ?thesis
        using z Some v "3.prems"(2)
        by (auto simp add: mode_utf8_iff [of x] intro: mode_utf8_updates(1) keepsD [OF keeps_single])
    next
      case False
      then have "v = JNull \<and> z = x \<or> (\<exists>us. v = JObj us \<and> dec_multi_members us x = Some z)"
        using z Some by (cases v) auto
      then show ?thesis
        using "3.prems"(2) v "3.IH"(1) [OF Some False] by auto
    qed
  qed (use z "3.prems" in auto)
  from "3.IH"(2) [OF z v(2) this y] show ?case .
next
  case (5 k raw v ms x)
  let ?sl = "ModeInfos x @ StaleInfos x"
  have x: "list_all mode_utf8 ?sl" "bitarray_ok (MultiBitarray x)"
    using "5.prems"(2) by (auto simp add: mode_utf8_iff)
  from "5.prems"(3) obtain z where z:
    "(case find_name [''bitarray'', ''mode_infos''] k of None \<Rightarrow> Some x
      | Some n \<Rightarrow> if n = ''bitarray'' then
          map_option (setBitarray x) (dec_struct bitarrayJSON raw v (MultiBitarray x))
        else (case v of JNull \<Rightarrow> Some (setInfos x ([], []))
          | JArr vs \<Rightarrow> if vs = [] then Some (setInfos x ([], []))
              else map_option (\<lambda>xs. setInfos x (xs, drop (length vs) ?sl)) (dec_modeInfos vs ?sl)
          | _ \<Rightarrow> None)) = Some z"
    and y: "dec_multi_members ms z = Some y"
    by (auto simp only: dec_multi_members.simps bind_eq_Some_conv)
  have v: "json_utf8 v" "list_all (\<lambda>m. utf8_valid (fst m) \<and> json_utf8 (snd (snd m))) ms" using "5.prems"(1) by auto
  have "mode_utf8 z"
  proof (cases "find_name [''bitarray'', ''mode_infos''] k")
    case (Some n)
    show ?thesis
    proof (cases "n = ''bitarray''")
      case True
      then show ?thesis
        using z Some v x "5.prems"(2)
        by (auto intro: mode_utf8_updates(2) keepsD [OF keeps_bitarray])
    next
      case False
      then have "z = x \<or> z = setInfos x ([], []) \<or> (\<exists>vs xs. v = JArr vs \<and> vs \<noteq> [] \<and>
          dec_modeInfos vs ?sl = Some xs \<and> z = setInfos x (xs, drop (length vs) ?sl))"
        using z Some by (cases v) (auto simp del: drop_append split: if_splits)
      then show ?thesis
        using "5.prems"(2) v x "5.IH"(1) [OF Some False]
        by (auto simp del: drop_append intro!: mode_utf8_updates(3) list_all_drop_append)
    qed
  qed (use z "5.prems" in auto)
  from "5.IH"(2) [OF z v(2) this y] show ?case .
next
  case (7 raw v vs old)
  then show ?case by (cases old) (auto split: bind_splits)
qed auto

lemma keeps_mode: "keeps mode_utf8 (\<lambda>raw. dec_modeInfo)"
  unfolding keeps_def using dec_modeInfo_utf8(1) by blast

lemma keeps_si: "keeps si_utf8 (dec_struct signerInfoJSON)"
  by (rule keeps_struct)
     (auto simp add: signerInfoJSON_def si_utf8_def
       intro: keeps_field [OF keeps_spk] keeps_field [OF keeps_mode] keeps_field [OF keeps_True])

lemma zero_si [simp]: "si_utf8 zeroSignerInfo"
  by (simp add: si_utf8_def zeroSignerInfo_def spk_utf8_def)

lemma keeps_fee: "keeps feejson_utf8 (dec_struct feeJSON)"
  by (rule keeps_struct)
     (auto simp add: feeJSON_def feejson_utf8_def
       intro: keeps_field [OF keeps_slice [OF keeps_coin zero_coin]] keeps_field [OF keeps_string]
         keeps_field [OF keeps_True])

lemma keeps_auth: "keeps auth_utf8 (dec_struct authInfoJSON)"
  by (rule keeps_struct)
     (auto simp add: authInfoJSON_def auth_utf8_def
       intro: keeps_field [OF keeps_slice [OF keeps_si zero_si]] keeps_field [OF keeps_fee])

lemma keeps_body: "keeps body_utf8 (dec_struct bodyJSON)"
  by (rule keeps_struct)
     (auto simp add: bodyJSON_def body_utf8_def
       intro: keeps_field [OF keeps_string] keeps_field [OF keeps_True])

lemma keeps_doc: "list_all (\<lambda>f. keeps doc_utf8 (snd f)) gentxJSON"
  by (auto simp add: gentxJSON_def doc_utf8_def
      intro: keeps_field [OF keeps_auth] keeps_field [OF keeps_body] keeps_field [OF keeps_True])

section \<open>Decoded gentxs\<close>

definition multisig_wf :: "SignerInfo \<Rightarrow> MultisigSigner \<Rightarrow> bool" where
  "multisig_wf s ms \<longleftrightarrow>
     PubKeyTypeURL s = legacyAminoPubKeyTypeURL \<and> PubKey s = [] \<and> Modes ms \<noteq> [] \<and>
     Mode s = hd (Modes ms) \<and> 1 \<le> unat (Threshold ms) \<and>
     unat (Threshold ms) \<le> length (Members ms) \<and> int64 (ExtraBitsStored ms) \<and>
     list_all utf8_valid (Modes ms) \<and> list_all (\<lambda>m. utf8_valid (MemberTypeURL m)) (Members ms)"

definition gentx_wf :: "ParsedGentx \<Rightarrow> bool" where
  "gentx_wf g \<longleftrightarrow> gentx_utf8 g \<and>
     (case Multisig (Signer g) of
        None \<Rightarrow> PubKeyTypeURL (Signer g) \<noteq> legacyAminoPubKeyTypeURL
      | Some ms \<Rightarrow> multisig_wf (Signer g) ms)"

lemma decodeMultisigSigner_wf:
  assumes "si_utf8 si" "decodeMultisigSigner si = Inr ms"
  shows "Modes ms \<noteq> [] \<and> list_all utf8_valid (Modes ms) \<and> 1 \<le> unat (Threshold ms) \<and>
    unat (Threshold ms) \<le> length (Members ms) \<and> int64 (ExtraBitsStored ms) \<and>
    list_all (\<lambda>m. utf8_valid (MemberTypeURL m)) (Members ms)"
proof -
  let ?pub = "SIPublicKey si" and ?mi = "SIModeInfo si"
  have guards: "fst (SPPublicKeys ?pub) \<noteq> []" "ModeInfos ?mi \<noteq> []"
    and thr: "\<not> SPThreshold ?pub < 1" "unat (SPThreshold ?pub) \<le> length (fst (SPPublicKeys ?pub))"
    using assms(2) by (simp_all add: decodeMultisigSigner_def Let_def split: if_splits)
  then obtain members elems where
    m: "mapE (\<lambda>k. bindE (decodeBase64 (AnyKeyText k) ErrComponentPubKey) (\<lambda>pk.
          Inr \<lparr>MemberTypeURL = AnyType k, MemberPubKey = pk\<rparr>)) (fst (SPPublicKeys ?pub)) = Inr members"
    and ms: "ms = \<lparr>Threshold = SPThreshold ?pub, Members = members, Modes = map SingleMode (ModeInfos ?mi),
      BitarrayElems = elems, ExtraBitsStored = BExtraBitsStored (MultiBitarray ?mi)\<rparr>"
    using assms(2) by (simp add: decodeMultisigSigner_def Let_def) blast
  have "length members = length (fst (SPPublicKeys ?pub))" using mapE_length [OF m] .
  moreover have "1 \<le> unat (SPThreshold ?pub)" using thr(1) by (simp add: word_less_nat_alt)
  moreover have "list_all utf8_valid (map SingleMode (ModeInfos ?mi))" "int64 (BExtraBitsStored (MultiBitarray ?mi))"
    using assms(1) mode_utf8_single
    by (auto simp add: si_utf8_def mode_utf8_iff [of ?mi] bitarray_ok_def list_all_iff)
  moreover have "list_all2 (\<lambda>k m. MemberTypeURL m = AnyType k) (fst (SPPublicKeys ?pub)) members"
    using m by (rule list_all2_mono [OF mapE_eq_Inr [THEN iffD1]]) auto
  then have "list_all (\<lambda>m. utf8_valid (MemberTypeURL m)) members"
    using assms(1)
    by (auto simp add: si_utf8_def spk_utf8_def slice_all_def anykey_utf8_def list_all_length
        list_all2_conv_all_nth)
  ultimately show ?thesis using ms thr guards(2) by simp
qed

lemma decodeSignerInfo_wf:
  assumes "si_utf8 si" "decodeSignerInfo si = Inr s"
  shows "utf8_valid (PubKeyTypeURL s) \<and> utf8_valid (Mode s) \<and>
    (case Multisig s of None \<Rightarrow> PubKeyTypeURL s \<noteq> legacyAminoPubKeyTypeURL | Some ms \<Rightarrow> multisig_wf s ms)"
proof (cases "SPType (SIPublicKey si) = legacyAminoPubKeyTypeURL")
  case True
  with assms(2) obtain ms where ms: "decodeMultisigSigner si = Inr ms" "Multisig s = Some ms"
      "PubKeyTypeURL s = SPType (SIPublicKey si)" "PubKey s = []" "Mode s = Modes ms ! 0"
    by (auto simp add: decodeSignerInfo_def split: if_splits)
  with decodeMultisigSigner_wf [OF assms(1) ms(1)] assms(1) True show ?thesis
    by (cases "Modes ms") (auto simp add: multisig_wf_def si_utf8_def spk_utf8_def)
next
  case False
  with assms show ?thesis
    by (auto simp add: decodeSignerInfo_def si_utf8_def spk_utf8_def mode_utf8_single)
qed

lemma Decode_wf:
  assumes "Decode data = Inr g"
  shows "gentx_wf g"
proof -
  from assms obtain raw msg signer where
    raw: "Unmarshal gentxJSON (string_of data) zeroGentx = Some raw"
    and msg: "Unmarshal msgCreateValidatorJSON (fst (JMessages (JBody raw)) ! 0) zeroMsg = Some msg"
    and len: "length (fst (JSignerInfos (JAuthInfo raw))) = 1"
    and signer: "decodeSignerInfo (fst (JSignerInfos (JAuthInfo raw)) ! 0) = Inr signer"
    and g: "Signer g = signer" "Memo g = JMemo (JBody raw)" "MsgDescription (Msg g) = MDescription msg"
      "MsgCommission (Msg g) = MCommission msg" "MsgMinSelfDelegation (Msg g) = MMinSelfDelegation msg"
      "DelegatorAddress (Msg g) = MDelegatorAddress msg" "ValidatorAddress (Msg g) = MValidatorAddress msg"
      "ConsensusPubKeyTypeURL (Msg g) = AnyType (MPubkey msg)" "MsgValue (Msg g) = MValue msg"
      "FeeAmount (TxFee g) = fst (FJAmount (JFee (JAuthInfo raw)))"
      "Payer (TxFee g) = FJPayer (JFee (JAuthInfo raw))" "Granter (TxFee g) = FJGranter (JFee (JAuthInfo raw))"
    by (auto simp add: Decode_def Let_def split: option.splits if_splits)
  have "doc_utf8 zeroGentx"
    by (simp add: doc_utf8_def zeroGentx_def body_utf8_def auth_utf8_def feejson_utf8_def)
  from Unmarshal_keeps [OF keeps_doc this raw] have doc: "doc_utf8 raw" .
  have "msg_utf8 zeroMsg"
    by (simp add: msg_utf8_def zeroMsg_def description_utf8_def rates_utf8_def)
  from Unmarshal_keeps [OF keeps_msg this msg] have m: "msg_utf8 msg" .
  have "si_utf8 (fst (JSignerInfos (JAuthInfo raw)) ! 0)"
    using doc len by (auto simp add: doc_utf8_def auth_utf8_def slice_all_def list_all_length)
  from decodeSignerInfo_wf [OF this signer] doc m show ?thesis
    unfolding gentx_wf_def g(1)
    by (auto simp add: gentx_utf8_def g Let_def doc_utf8_def auth_utf8_def body_utf8_def
        feejson_utf8_def slice_all_def msg_utf8_def description_utf8_def rates_utf8_def anykey_utf8_def)
qed

end
