(* ===== verification/Runner.thy ===== *)
theory Runner
  imports SignMode Decode
begin

text \<open>
  \<open>gentxvalidate/runner.go\<close>: the light set of checks and the two runners. The abstract
  specification of the package is \<open>acceptable\<close>, one conjunct per invariant; a run passes
  exactly on the documents that decode to an acceptable gentx.
\<close>

definition lightChecks :: "('pk, 'sc) externals \<Rightarrow> ParsedGentx \<Rightarrow> Params \<Rightarrow> Result list" where
  "lightChecks X g p =
     [CheckBondDenom g p, CheckSelfDelegation g p, CheckCommissionConsistency g,
      CheckCommissionChangeRate g, CheckCommissionBounds g p, CheckMoniker g p,
      CheckOperatorAddress X g p, CheckConsensusPubKey g]"

definition RunLight :: "('pk, 'sc) externals \<Rightarrow> bytes \<Rightarrow> Params \<Rightarrow> Result list" where
  "RunLight X raw p =
     (case Decode raw of
        Inl e \<Rightarrow> [fail InvWellFormed (ReasonErr e)]
      | Inr g \<Rightarrow> [pass InvWellFormed] @ lightChecks X g p)"

definition RunAll :: "('pk, 'sc) externals \<Rightarrow> bytes \<Rightarrow> Params \<Rightarrow> Result list outcome" where
  "RunAll X raw p =
     (case Decode raw of
        Inl e \<Rightarrow> Ret [fail InvWellFormed (ReasonErr e)]
      | Inr g \<Rightarrow>
          let results = [pass InvWellFormed] @ lightChecks X g p in
          bindO (CheckSignature X g p) (\<lambda>r. Ret (results @ [r])))"

section \<open>What a run accepts\<close>

definition light_ok :: "('pk, 'sc) externals \<Rightarrow> ParsedGentx \<Rightarrow> Params \<Rightarrow> bool" where
  "light_ok X g p \<longleftrightarrow> bond_denom_ok g p \<and> self_delegation_ok g p \<and>
     commission_consistent (MsgCommission (Msg g)) \<and> change_rate_ok (MsgCommission (Msg g)) \<and>
     commission_bounds_ok (MsgCommission (Msg g)) p \<and>
     moniker_ok (Moniker (MsgDescription (Msg g))) p \<and> operator_ok X g p \<and> consensus_key_ok g"

definition acceptable :: "('pk, 'sc) externals \<Rightarrow> ParsedGentx \<Rightarrow> Params \<Rightarrow> bool" where
  "acceptable X g p \<longleftrightarrow> light_ok X g p \<and> signature_ok X g p"

lemma lightChecks_OK: "AllOK (lightChecks X g p) \<longleftrightarrow> light_ok X g p"
  by (simp add: lightChecks_def light_ok_def Check_OK)

lemma lightChecks_ids:
  "map Invariant (lightChecks X g p) =
     [InvBondDenom, InvSelfDelegation, InvCommissionConsistency, InvCommissionChangeRate,
      InvCommissionBounds, InvMoniker, InvOperatorAddress, InvConsensusPubKey]"
  by (simp add: lightChecks_def Check_Invariant)

lemma AllOK_append [simp]: "AllOK (rs @ ss) \<longleftrightarrow> AllOK rs \<and> AllOK ss"
  by (auto simp add: AllOK_iff)

lemma RunLight_accepts:
  "AllOK (RunLight X raw p) \<longleftrightarrow> (\<exists>g. Decode raw = Inr g \<and> light_ok X g p)"
  by (cases "Decode raw") (simp_all add: RunLight_def lightChecks_OK)

lemma RunAll_returns:
  "RunAll X raw p = Panic \<longleftrightarrow> (\<exists>g. Decode raw = Inr g \<and> panics g p)"
  by (cases "Decode raw") (simp_all add: RunAll_def bindO_eq_Panic CheckSignature_Panic)

lemma RunAll_accepts:
  "RunAll X raw p = Ret rs \<Longrightarrow>
   AllOK rs \<longleftrightarrow> (\<exists>g. Decode raw = Inr g \<and> acceptable X g p)"
  by (cases "Decode raw")
     (auto simp add: RunAll_def acceptable_def lightChecks_OK CheckSignature_OK split: if_splits)

lemma RunAll_light:
  "RunAll X raw p = Ret rs \<Longrightarrow>
   (case Decode raw of Inl e \<Rightarrow> rs = RunLight X raw p
    | Inr g \<Rightarrow> \<exists>r. CheckSignature X g p = Ret r \<and> rs = RunLight X raw p @ [r])"
  by (cases "Decode raw") (auto simp add: RunAll_def RunLight_def)

end
