(* ===== verification/GentxJson.thy ===== *)
theory GentxJson
  imports Decode
begin

text \<open>
  The proto-JSON document of a gentx, as a tree in the order the Cosmos SDK writes it, and the
  round trip through \<open>Decode\<close>: every well-formed gentx is what its own document decodes to.
  Together with \<open>Decode_wf\<close> this says that \<open>gentx_wf\<close> is exactly the image of the decoder.
\<close>

section \<open>Integers\<close>

definition format_int :: "int \<Rightarrow> string" where
  "format_int x = (if x < 0 then CHR ''-'' # format_nat (nat (- x)) else format_nat (nat x))"

lemma digits_takeWhile: "all_digits s \<Longrightarrow> takeWhile isDigit s = s"
  and digits_dropWhile: "all_digits s \<Longrightarrow> dropWhile isDigit s = []"
  by (simp_all add: all_digits_def list_all_iff takeWhile_eq_all_conv dropWhile_eq_Nil_conv)

lemma pint_digits:
  assumes "s \<noteq> []" "all_digits s" "no_leading_zero s"
  shows "pint s = Some (s, [])"
  using assms
  by (cases s) (auto simp add: no_leading_zero_def digits_takeWhile digits_dropWhile)

lemma pnum_digits:
  assumes "s \<noteq> []" "all_digits s" "no_leading_zero s"
  shows "pnum s = Some (s, [])" "pnum (CHR ''-'' # s) = Some (CHR ''-'' # s, [])"
proof -
  have "pminus s = ([], s)" using assms(1,2) by (cases s) auto
  then show "pnum s = Some (s, [])" by (simp add: pnum_def pint_digits assms)
  show "pnum (CHR ''-'' # s) = Some (CHR ''-'' # s, [])" by (simp add: pnum_def pint_digits assms)
qed

lemma pnum_format_nat [simp]: "pnum (format_nat n) = Some (format_nat n, [])"
  by (simp add: pnum_digits)

lemma pnum_format_int [simp]: "pnum (format_int x) = Some (format_int x, [])"
  by (simp add: format_int_def pnum_digits)

lemma ParseInt_format_int [simp]: "int64 x \<Longrightarrow> ParseInt (format_int x) = Some x"
  by (auto simp add: int64_def ParseInt_def format_int_def big_SetString_digits)

section \<open>The document\<close>

definition key_tree :: "string \<Rightarrow> bytes \<Rightarrow> jtree" where
  "key_tree t k = TObj [(''@type'', TStr t), (''key'', TStr (EncodeToString k))]"

definition json_coin :: "Coin \<Rightarrow> jtree" where
  "json_coin c = TObj [(''denom'', TStr (Denom c)), (''amount'', TStr (Amount c))]"

definition json_description :: "Description \<Rightarrow> jtree" where
  "json_description d =
     TObj [(''moniker'', TStr (Moniker d)), (''identity'', TStr (Identity d)),
       (''website'', TStr (Website d)), (''security_contact'', TStr (SecurityContact d)),
       (''details'', TStr (Details d))]"

definition json_commission :: "CommissionRates \<Rightarrow> jtree" where
  "json_commission c =
     TObj [(''rate'', TStr (Rate c)), (''max_rate'', TStr (MaxRate c)),
       (''max_change_rate'', TStr (MaxChangeRate c))]"

definition json_msg :: "MsgCreateValidator \<Rightarrow> jtree" where
  "json_msg m =
     TObj [(''@type'', TStr MsgCreateValidatorTypeURL),
       (''description'', json_description (MsgDescription m)),
       (''commission'', json_commission (MsgCommission m)),
       (''min_self_delegation'', TStr (MsgMinSelfDelegation m)),
       (''delegator_address'', TStr (DelegatorAddress m)),
       (''validator_address'', TStr (ValidatorAddress m)),
       (''pubkey'', key_tree (ConsensusPubKeyTypeURL m) (ConsensusPubKey m)),
       (''value'', json_coin (MsgValue m))]"

definition json_single :: "string \<Rightarrow> jtree" where
  "json_single mode = TObj [(''single'', TObj [(''mode'', TStr mode)])]"

definition json_multi :: "MultisigSigner \<Rightarrow> jtree" where
  "json_multi ms =
     TObj [(''multi'', TObj
       [(''bitarray'', TObj
           [(''extra_bits_stored'', TNum (format_int (ExtraBitsStored ms))),
            (''elems'', TStr (EncodeToString (BitarrayElems ms)))]),
        (''mode_infos'', TArr (map json_single (Modes ms)))])]"

definition json_multi_key :: "MultisigSigner \<Rightarrow> jtree" where
  "json_multi_key ms =
     TObj [(''@type'', TStr legacyAminoPubKeyTypeURL),
       (''threshold'', TNum (format_nat (unat (Threshold ms)))),
       (''public_keys'', TArr (map (\<lambda>m. key_tree (MemberTypeURL m) (MemberPubKey m)) (Members ms)))]"

definition json_signer :: "SignerInfo \<Rightarrow> jtree" where
  "json_signer s =
     (case Multisig s of
        None \<Rightarrow>
          TObj [(''public_key'', key_tree (PubKeyTypeURL s) (PubKey s)),
            (''mode_info'', json_single (Mode s)), (''sequence'', TStr (FormatUint (Sequence s)))]
      | Some ms \<Rightarrow>
          TObj [(''public_key'', json_multi_key ms), (''mode_info'', json_multi ms),
            (''sequence'', TStr (FormatUint (Sequence s)))])"

definition json_fee :: "Fee \<Rightarrow> jtree" where
  "json_fee f =
     TObj [(''amount'', TArr (map json_coin (FeeAmount f))),
       (''gas_limit'', TStr (FormatUint (GasLimit f))), (''payer'', TStr (Payer f)),
       (''granter'', TStr (Granter f))]"

definition gentx_tree :: "ParsedGentx \<Rightarrow> jtree" where
  "gentx_tree g =
     TObj [(''body'', TObj
         [(''messages'', TArr [json_msg (Msg g)]), (''memo'', TStr (Memo g)),
          (''timeout_height'', TStr (FormatUint (TimeoutHeight g))),
          (''extension_options'', TArr []), (''non_critical_extension_options'', TArr [])]),
       (''auth_info'', TObj
         [(''signer_infos'', TArr [json_signer (Signer g)]), (''fee'', json_fee (TxFee g))]),
       (''signatures'', TArr [TStr (EncodeToString (Signature g))])]"

definition gentx_doc :: "ParsedGentx \<Rightarrow> bytes" where
  "gentx_doc g = bytes_of (jprint (gentx_tree g))"

lemmas json_trees = key_tree_def json_coin_def json_description_def json_commission_def
  json_msg_def json_single_def json_multi_def json_multi_key_def json_signer_def json_fee_def

section \<open>Decoding a printed tree\<close>

lemma find_name_here: "k \<in> set names \<Longrightarrow> find_name names k = Some k"
  by (simp add: find_name_def)

lemma clean_literal [simp]: "list_all (\<lambda>c. ord_of c < 128) s \<Longrightarrow> clean s = s"
  by (simp add: utf8_literal)

lemma dec_elems_map:
  "\<forall>x\<in>set xs. d (jprint (t x)) (annot (t x)) z = Some (r x) \<Longrightarrow>
   dec_elems d z (map (\<lambda>x. (jprint (t x), annot (t x))) xs) [] = Some (map r xs)"
  by (induction xs) auto

lemma dec_slice_map:
  "\<forall>x\<in>set xs. d (jprint (t x)) (annot (t x)) z = Some (r x) \<Longrightarrow>
   dec_slice d z raw (annot (TArr (map t xs))) ([], []) = Some (map r xs, [])"
  by (simp add: dec_slice_def dec_elems_map comp_def)

lemma dec_struct_obj: "dec_struct fs raw (JObj ms) x = dec_members fs ms x"
  by (simp add: dec_struct_def)

lemmas dec_table = dec_struct_obj dec_member_def find_name_here field_def dec_string_def

lemma dec_coin: "coin_utf8 c \<Longrightarrow> dec_struct coinJSON raw (annot (json_coin c)) old = Some c"
  by (simp add: dec_table json_coin_def coinJSON_def coin_utf8_def)

lemma dec_key:
  "utf8_valid t \<Longrightarrow> dec_struct anyKeyJSON raw (annot (key_tree t k)) old =
     Some \<lparr>AnyType = t, AnyKeyText = EncodeToString k\<rparr>"
  by (simp add: dec_table key_tree_def anyKeyJSON_def)

lemma dec_description:
  "description_utf8 d \<Longrightarrow>
   dec_struct descriptionJSON raw (annot (json_description d)) old = Some d"
  by (simp add: dec_table json_description_def descriptionJSON_def description_utf8_def)

lemma dec_commission:
  "rates_utf8 c \<Longrightarrow> dec_struct commissionJSON raw (annot (json_commission c)) old = Some c"
  by (simp add: dec_table json_commission_def commissionJSON_def rates_utf8_def)

definition msg_json :: "MsgCreateValidator \<Rightarrow> MsgJSON" where
  "msg_json m =
     \<lparr>MType = MsgCreateValidatorTypeURL, MDescription = MsgDescription m,
      MCommission = MsgCommission m, MMinSelfDelegation = MsgMinSelfDelegation m,
      MDelegatorAddress = DelegatorAddress m, MValidatorAddress = ValidatorAddress m,
      MPubkey = \<lparr>AnyType = ConsensusPubKeyTypeURL m, AnyKeyText = EncodeToString (ConsensusPubKey m)\<rparr>,
      MValue = MsgValue m\<rparr>"

lemma utf8_urls [simp]:
  "utf8_valid MsgCreateValidatorTypeURL" "utf8_valid legacyAminoPubKeyTypeURL"
  by (simp_all add: MsgCreateValidatorTypeURL_def legacyAminoPubKeyTypeURL_def utf8_literal)

lemma dec_msg:
  assumes "gentx_utf8 g"
  shows "dec_struct msgCreateValidatorJSON raw (annot (json_msg (Msg g))) old = Some (msg_json (Msg g))"
proof -
  have "description_utf8 (MsgDescription (Msg g))" "rates_utf8 (MsgCommission (Msg g))"
    "coin_utf8 (MsgValue (Msg g))"
    using assms by (simp_all add: gentx_utf8_def description_utf8_def rates_utf8_def Let_def)
  note subs = dec_description [OF this(1)] dec_commission [OF this(2)] dec_coin [OF this(3)]
  have "utf8_valid (MsgMinSelfDelegation (Msg g))" "utf8_valid (DelegatorAddress (Msg g))"
    "utf8_valid (ValidatorAddress (Msg g))" "utf8_valid (ConsensusPubKeyTypeURL (Msg g))"
    using assms by (simp_all add: gentx_utf8_def Let_def)
  then show ?thesis
    by (simp add: dec_table json_msg_def msgCreateValidatorJSON_def msg_json_def subs dec_key)
qed

text \<open>The sign modes.\<close>

lemma dec_single:
  "utf8_valid s \<Longrightarrow> dec_modeInfo (annot (json_single s)) zeroModeInfo = Some (setSingle zeroModeInfo s)"
  by (simp add: dec_table json_single_def singleJSON_def)

lemma dec_singles:
  "list_all utf8_valid modes \<Longrightarrow>
   dec_modeInfos (map (\<lambda>m. (jprint (json_single m), annot (json_single m))) modes) [] =
     Some (map (setSingle zeroModeInfo) modes)"
  by (induction modes) (simp_all add: dec_single del: dec_modeInfo.simps)

lemma dec_bitarray:
  assumes "int64 x"
  shows "dec_struct bitarrayJSON raw
      (annot (TObj [(''extra_bits_stored'', TNum (format_int x)), (''elems'', TStr (EncodeToString b))])) old =
    Some \<lparr>BExtraBitsStored = x, BElems = EncodeToString b\<rparr>"
  using assms by (simp add: dec_table bitarrayJSON_def dec_int_def)

lemma dec_multi:
  assumes "int64 (ExtraBitsStored ms)" "list_all utf8_valid (Modes ms)" "Modes ms \<noteq> []"
  shows "dec_modeInfo (annot (json_multi ms)) zeroModeInfo =
    Some (ModeInfo [] \<lparr>BExtraBitsStored = ExtraBitsStored ms, BElems = EncodeToString (BitarrayElems ms)\<rparr>
      (map (setSingle zeroModeInfo) (Modes ms)) [])"
proof -
  have z: "ModeInfos zeroModeInfo = []" "StaleInfos zeroModeInfo = []" "SingleMode zeroModeInfo = []"
    by (simp_all add: zeroModeInfo_def)
  show ?thesis
    using assms dec_bitarray [OF assms(1)] dec_singles [OF assms(2)]
    by (simp add: json_multi_def find_name_here setBitarray_def setInfos_def z comp_def del: annot.simps(4))
qed

text \<open>The signer, of either shape.\<close>

definition signer_json :: "SignerInfo \<Rightarrow> SignerInfoJSON" where
  "signer_json s =
     (case Multisig s of
        None \<Rightarrow>
          \<lparr>SIPublicKey = \<lparr>SPType = PubKeyTypeURL s, SPKey = EncodeToString (PubKey s),
             SPThreshold = 0, SPPublicKeys = ([], [])\<rparr>,
           SIModeInfo = setSingle zeroModeInfo (Mode s), SISequence = FormatUint (Sequence s)\<rparr>
      | Some ms \<Rightarrow>
          \<lparr>SIPublicKey = \<lparr>SPType = legacyAminoPubKeyTypeURL, SPKey = [], SPThreshold = Threshold ms,
             SPPublicKeys = (map (\<lambda>m. \<lparr>AnyType = MemberTypeURL m,
                AnyKeyText = EncodeToString (MemberPubKey m)\<rparr>) (Members ms), [])\<rparr>,
           SIModeInfo = ModeInfo []
             \<lparr>BExtraBitsStored = ExtraBitsStored ms, BElems = EncodeToString (BitarrayElems ms)\<rparr>
             (map (setSingle zeroModeInfo) (Modes ms)) [],
           SISequence = FormatUint (Sequence s)\<rparr>)"

lemma ParseUint_threshold [simp]: "ParseUint (format_nat (unat (t :: uint32))) = Some (ucast t)"
proof -
  have "unat t < 2 ^ 32" using unsigned_less [of t, where ?'a = nat] by simp
  then have "unat t < 2 ^ 64" by simp
  moreover have "(of_nat (unat t) :: uint64) = ucast t" by (simp add: unsigned_of_nat)
  ultimately show ?thesis by (simp add: ParseUint_def)
qed

lemma dec_threshold: "dec_uint32 raw (annot (TNum (format_nat (unat t)))) old = Some t"
proof -
  have "unat t < 2 ^ 32" using unsigned_less [of t, where ?'a = nat] by simp
  then have "(ucast t :: uint64) < 2 ^ 32"
    by (simp add: word_less_nat_alt unsigned_ucast_eq take_bit_nat_eq_self)
  moreover have "(ucast (ucast t :: uint64) :: uint32) = t"
    by (transfer, simp add: take_bit_take_bit)
  ultimately show ?thesis by (simp add: dec_uint32_def)
qed

lemma dec_signer:
  assumes "gentx_wf g"
  shows "dec_struct signerInfoJSON raw (annot (json_signer (Signer g))) zeroSignerInfo =
    Some (signer_json (Signer g))"
proof (cases "Multisig (Signer g)")
  case None
  have "utf8_valid (PubKeyTypeURL (Signer g))" "utf8_valid (Mode (Signer g))"
    using assms by (simp_all add: gentx_wf_def gentx_utf8_def Let_def)
  then show ?thesis
    using None dec_single [of "Mode (Signer g)"]
    by (simp add: dec_table json_signer_def signer_json_def signerInfoJSON_def zeroSignerInfo_def
        signerPubKeyJSON_def key_tree_def del: dec_modeInfo.simps)
next
  case (Some ms)
  then have wf: "list_all (\<lambda>m. utf8_valid (MemberTypeURL m)) (Members ms)"
    "int64 (ExtraBitsStored ms)" "list_all utf8_valid (Modes ms)" "Modes ms \<noteq> []"
    using assms by (simp_all add: gentx_wf_def multisig_wf_def)
  have keys: "dec_slice (dec_struct anyKeyJSON) zeroAnyKey raw
      (annot (TArr (map (\<lambda>m. key_tree (MemberTypeURL m) (MemberPubKey m)) (Members ms)))) ([], []) =
    Some (map (\<lambda>m. \<lparr>AnyType = MemberTypeURL m, AnyKeyText = EncodeToString (MemberPubKey m)\<rparr>)
      (Members ms), [])" for raw
    by (rule dec_slice_map) (use wf(1) in \<open>auto simp add: list_all_iff intro!: dec_key\<close>)
  show ?thesis
    using Some dec_multi [OF wf(2-4)] keys dec_threshold [of _ "Threshold ms"]
    by (simp add: dec_table json_signer_def signer_json_def signerInfoJSON_def zeroSignerInfo_def
        signerPubKeyJSON_def json_multi_key_def del: dec_modeInfo.simps)
qed

lemma dec_fee:
  assumes "gentx_utf8 g"
  shows "dec_struct feeJSON raw (annot (json_fee (TxFee g)))
      \<lparr>FJAmount = ([], []), FJGasLimit = [], FJPayer = [], FJGranter = []\<rparr> =
    Some \<lparr>FJAmount = (FeeAmount (TxFee g), []), FJGasLimit = FormatUint (GasLimit (TxFee g)),
      FJPayer = Payer (TxFee g), FJGranter = Granter (TxFee g)\<rparr>"
proof -
  have utf8: "list_all coin_utf8 (FeeAmount (TxFee g))" "utf8_valid (Payer (TxFee g))"
    "utf8_valid (Granter (TxFee g))"
    using assms by (simp_all add: gentx_utf8_def Let_def)
  have "dec_slice (dec_struct coinJSON) zeroCoin raw (annot (TArr (map json_coin (FeeAmount (TxFee g)))))
      ([], []) = Some (map (\<lambda>c. c) (FeeAmount (TxFee g)), [])" for raw
    by (rule dec_slice_map) (use utf8(1) in \<open>auto simp add: list_all_iff intro!: dec_coin\<close>)
  with utf8 show ?thesis
    by (simp add: dec_table json_fee_def feeJSON_def del: annot.simps(5))
qed

text \<open>The document: one message, kept as its own text, one signer and one signature.\<close>

definition doc_json :: "ParsedGentx \<Rightarrow> GentxJSON" where
  "doc_json g =
     \<lparr>LegacyType = [], LegacyValue = [],
      JBody = \<lparr>JMessages = ([jprint (json_msg (Msg g))], []), JMemo = Memo g,
               JTimeoutHeight = FormatUint (TimeoutHeight g), JExtensionOptions = ([], []),
               JNonCriticalExtensionOptions = ([], [])\<rparr>,
      JAuthInfo = \<lparr>JSignerInfos = ([signer_json (Signer g)], []),
                   JFee = \<lparr>FJAmount = (FeeAmount (TxFee g), []),
                     FJGasLimit = FormatUint (GasLimit (TxFee g)),
                     FJPayer = Payer (TxFee g), FJGranter = Granter (TxFee g)\<rparr>\<rparr>,
      JSignatures = ([EncodeToString (Signature g)], [])\<rparr>"

lemma dec_doc:
  assumes "gentx_wf g"
  shows "dec_struct gentxJSON raw (annot (gentx_tree g)) zeroGentx = Some (doc_json g)"
proof -
  have utf8: "gentx_utf8 g" "utf8_valid (Memo g)"
    using assms by (simp_all add: gentx_wf_def gentx_utf8_def Let_def)
  show ?thesis
    using utf8(2) dec_signer [OF assms] dec_fee [OF utf8(1)]
    by (simp add: dec_table gentx_tree_def gentxJSON_def zeroGentx_def bodyJSON_def authInfoJSON_def
        doc_json_def dec_slice_def dec_raw_def)
qed

section \<open>The round trip\<close>

lemma decodeBase64_encode [simp]: "decodeBase64 (EncodeToString b) e = Inr b"
  by (simp add: decodeBase64_def base64.dec_enc)

lemma parseUint_format [simp]: "parseUint (FormatUint v) name = Inr v"
  by (simp add: parseUint_def FormatUint_not_Nil uint_text.dec_enc)

lemma decode_signer:
  assumes "gentx_wf g"
  shows "decodeSignerInfo (signer_json (Signer g)) = Inr (Signer g)"
proof (cases "Multisig (Signer g)")
  case None
  with assms show ?thesis
    by (simp add: gentx_wf_def decodeSignerInfo_def signer_json_def setSingle_def)
next
  case (Some ms)
  then have "multisig_wf (Signer g) ms" using assms by (simp add: gentx_wf_def)
  then have wf: "PubKeyTypeURL (Signer g) = legacyAminoPubKeyTypeURL" "PubKey (Signer g) = []"
    "Modes ms \<noteq> []" "Mode (Signer g) = Modes ms ! 0" "\<not> Threshold ms < 1" "Members ms \<noteq> []"
    "\<not> length (Members ms) < unat (Threshold ms)"
    by (auto simp add: multisig_wf_def hd_conv_nth word_less_nat_alt)
  have "mapE (\<lambda>k. bindE (decodeBase64 (AnyKeyText k) ErrComponentPubKey) (\<lambda>pk.
        Inr \<lparr>MemberTypeURL = AnyType k, MemberPubKey = pk\<rparr>))
      (map (\<lambda>m. \<lparr>AnyType = MemberTypeURL m, AnyKeyText = EncodeToString (MemberPubKey m)\<rparr>) members) =
    Inr members" for members
    by (induction members) simp_all
  then have "decodeMultisigSigner (signer_json (Signer g)) = Inr ms"
    using wf Some by (simp add: decodeMultisigSigner_def signer_json_def setSingle_def comp_def)
  with wf Some show ?thesis
    by (simp add: decodeSignerInfo_def signer_json_def)
qed

lemma tree_ok_signer: "tree_ok (json_signer s)" and tree_ok_msg: "tree_ok (json_msg m)"
  by (simp_all add: json_trees list_all_iff split: option.split)

lemma Decode_gentx_doc:
  assumes "gentx_wf g"
  shows "Decode (gentx_doc g) = Inr g"
proof -
  have "tree_ok (gentx_tree g)"
    by (simp add: gentx_tree_def tree_ok_msg tree_ok_signer json_fee_def json_coin_def list_all_iff)
  moreover have "tree_depth (gentx_tree g) \<le> maxNestingDepth"
    by (auto simp add: gentx_tree_def json_trees maxNestingDepth_def comp_def foldr_max_le split: option.split)
  ultimately have doc: "Unmarshal gentxJSON (string_of (gentx_doc g)) zeroGentx = Some (doc_json g)"
    using dec_doc [OF assms] by (simp add: Unmarshal_def gentx_doc_def parse_jprint)
  have "tree_depth (json_msg (Msg g)) \<le> maxNestingDepth"
    by (simp add: json_trees maxNestingDepth_def)
  then have msg: "Unmarshal msgCreateValidatorJSON (jprint (json_msg (Msg g))) zeroMsg = Some (msg_json (Msg g))"
    using dec_msg assms by (simp add: gentx_wf_def Unmarshal_def parse_jprint tree_ok_msg)
  show ?thesis
    unfolding Decode_def doc using msg decode_signer [OF assms]
    by (simp add: doc_json_def msg_json_def)
qed

lemma Decode_image: "gentx_wf g \<longleftrightarrow> (\<exists>data. Decode data = Inr g)"
  using Decode_gentx_doc Decode_wf by blast

end
