(* ===== verification/Samples.thy ===== *)
theory Samples
  imports Runner GentxJson
begin

text \<open>
  Concrete inputs for the witnesses: a gentx signed by a single key, one signed by a multisig, one
  whose bit array is too short, launch parameters they meet, and third-party functions that satisfy
  the hypotheses of the properties.
\<close>

section \<open>Third-party functions\<close>

text \<open>
  An address is the prefix, a separator and the payload; every key parses and every scalar is in
  range; a signature is good when \<open>v\<close> says so.
\<close>

definition sample_ext :: "(bytes \<Rightarrow> bool) \<Rightarrow> (unit, unit) externals" where
  "sample_ext v =
     \<lparr>ParsePubKey = \<lambda>_. Some (), SetByteSlice = \<lambda>_. ((), False),
      ecdsa_Verify = \<lambda>_ _ hash _. v hash, ripemd160 = \<lambda>_. replicate 20 0,
      bech32_Decode = \<lambda>a _. Some (map_prod id bytes_of (Cut a CHR ''1'')),
      bech32_Encode = \<lambda>h d. Some (h @ CHR ''1'' # string_of d),
      bech32_ConvertBits = \<lambda>b _ _ _. Some b\<rparr>"

lemma sample_inverts: "CHR ''1'' \<notin> set hrp \<Longrightarrow> bech32_inverts (sample_ext v) hrp"
  by (simp add: bech32_inverts_def sample_ext_def Cut_append)

lemma sample_ripemd: "ripemd160_len (sample_ext v)"
  by (simp add: ripemd160_len_def sample_ext_def)

lemma sample_secp: "secp_valid (sample_ext v) k sig m \<longleftrightarrow> v (Sum256 m)"
  by (simp add: secp_valid_def sample_ext_def)

section \<open>A gentx of a single key\<close>

definition sample_account :: bytes where
  "sample_account = replicate 20 0"

definition sample_msg :: MsgCreateValidator where
  "sample_msg =
     \<lparr>MsgDescription = \<lparr>Moniker = ''val'', Identity = [], Website = [], SecurityContact = [],
        Details = []\<rparr>,
      MsgCommission = \<lparr>Rate = ''0.1'', MaxRate = ''0.20'', MaxChangeRate = ''0.01''\<rparr>,
      MsgMinSelfDelegation = ''1'', DelegatorAddress = [],
      ValidatorAddress = ''cosmosvaloper1'' @ string_of sample_account,
      ConsensusPubKeyTypeURL = ed25519PubKeyTypeURL, ConsensusPubKey = replicate 32 3,
      MsgValue = \<lparr>Denom = ''stake'', Amount = ''100''\<rparr>\<rparr>"

definition sample_signer :: "string \<Rightarrow> SignerInfo" where
  "sample_signer mode =
     \<lparr>PubKeyTypeURL = secp256k1PubKeyTypeURL, PubKey = replicate 33 2, Mode = mode, Sequence = 0,
      Multisig = None\<rparr>"

definition sample_gentx :: "string \<Rightarrow> ParsedGentx" where
  "sample_gentx mode =
     \<lparr>Msg = sample_msg, Memo = ''node@1.2.3.4'', TimeoutHeight = 0, Signer = sample_signer mode,
      TxFee = \<lparr>FeeAmount = [], GasLimit = 200000, Payer = [], Granter = []\<rparr>,
      Signature = replicate 64 1\<rparr>"

definition sample_params :: Params where
  "sample_params =
     \<lparr>ChainID = ''c-1'', BondDenom = ''stake'', Bech32Prefix = ''cosmos'',
      ParamMinSelfDelegation = ''10'', MinCommissionRate = ''0.05'', MaxCommissionRate = [],
      MaxCommissionChangeRate = [], MaxMonikerLen = 0\<rparr>"

lemma sample_account_ascii: "list_all (\<lambda>c. ord_of c < 128) (string_of sample_account)"
  by (simp add: sample_account_def string_of_def list_all_iff)

lemma sample_utf8: "utf8_valid mode \<Longrightarrow> gentx_utf8 (sample_gentx mode)"
  by (simp add: gentx_utf8_def sample_gentx_def sample_msg_def sample_signer_def coin_utf8_def
      utf8_literal secp256k1PubKeyTypeURL_def ed25519PubKeyTypeURL_def sample_account_ascii)

lemma sample_wf: "utf8_valid mode \<Longrightarrow> gentx_wf (sample_gentx mode)"
  using sample_utf8 [of mode]
  by (simp add: gentx_wf_def)
     (simp add: sample_gentx_def sample_signer_def secp256k1PubKeyTypeURL_def legacyAminoPubKeyTypeURL_def)

text \<open>The gentx meets the parameters.\<close>

lemma sample_light: "light_ok (sample_ext v) (sample_gentx mode) sample_params"
proof -
  let ?g = "sample_gentx mode" and ?X = "sample_ext v"
  have "bond_denom_ok ?g sample_params"
    by (simp add: bond_denom_ok_def sample_gentx_def sample_msg_def sample_params_def)
  moreover have "self_delegation_ok ?g sample_params"
    by (simp add: self_delegation_ok_def sample_gentx_def sample_msg_def sample_params_def isDigit_def
        digits_val_def)
  moreover have "commission_consistent (MsgCommission (Msg ?g))" "change_rate_ok (MsgCommission (Msg ?g))"
    "commission_bounds_ok (MsgCommission (Msg ?g)) sample_params"
    by (simp_all add: commission_consistent_def change_rate_ok_def commission_bounds_ok_def
        sample_gentx_def sample_msg_def sample_params_def dec_text_def dec_scaled_def Cut_def
        isDigit_def digits_val_def)
  moreover have "moniker_ok (Moniker (MsgDescription (Msg ?g))) sample_params"
    by (simp add: moniker_ok_def sample_gentx_def sample_msg_def sample_params_def maxMonikerLen_def
        DefaultMaxMonikerLen_def)
       (rule exI [of _ "[118, 97, 108]"], simp add: scalar_def IsControl_def encode_scalar_def char_of_def bit_0)
  moreover have "operator_ok ?X ?g sample_params"
    by (simp add: operator_ok_def sample_gentx_def sample_msg_def sample_params_def sample_signer_def
        signerAddressBytes_def accountAddressBytes_def decodeBech32Address_def sample_ext_def
        sample_account_def compressedPubKeyLen_def accountAddrLen_def Cut_def)
  moreover have "consensus_key_ok ?g"
    by (simp add: consensus_key_ok_def sample_gentx_def sample_msg_def ed25519PubKeyTypeURL_def)
  ultimately show ?thesis by (simp add: light_ok_def)
qed

subsection \<open>Sign bytes\<close>

lemma sample_modes:
  "Mode (Signer (sample_gentx mode)) = mode" "Multisig (Signer (sample_gentx mode)) = None"
  "ConsensusPubKeyTypeURL (Msg (sample_gentx mode)) = ed25519PubKeyTypeURL"
  by (simp_all add: sample_gentx_def sample_signer_def sample_msg_def)

lemma sample_direct:
  "DirectSignBytes (sample_gentx signModeDirectName) c n =
     Inr (enc_fields (sign_doc_fields (sample_gentx signModeDirectName) c n))"
proof -
  have "msg_ok sample_msg"
    by (simp add: msg_ok_def commission_ok_def int_text_def sample_msg_def dec_text_def Cut_def isDigit_def)
  then show ?thesis
    unfolding DirectSignBytes_fields
    by (simp add: sample_modes sample_gentx_def sample_signer_def fee_ok_def)
qed

text \<open>A bound on the size of the sample's sign bytes.\<close>

lemma any_length: "length (enc_fields (any_fields t v)) \<le> 40 + length t + length v"
  by (rule order_trans [OF length_enc_fields_le]) (simp add: any_fields_def str_field_def)

lemma key_any_length: "length (enc_fields (key_any_fields t k)) \<le> 60 + length t + length k"
proof -
  have "length (enc_fields [(1, LenDelim k)]) \<le> 20 + length k"
    by (rule order_trans [OF length_enc_fields_le]) simp
  with any_length [of t "enc_fields [(1, LenDelim k)]"] show ?thesis
    by (simp add: key_any_fields_def del: enc_fields_simps)
qed

lemmas sample_defs = sample_gentx_def sample_msg_def sample_signer_def sample_account_def
  ed25519PubKeyTypeURL_def secp256k1PubKeyTypeURL_def MsgCreateValidatorTypeURL_def

lemma sample_msg_length: "length (enc_fields (msg_fields (Msg (sample_gentx mode)))) \<le> 1000"
proof -
  let ?m = "Msg (sample_gentx mode)"
  note le = order_trans [OF length_enc_fields_le]
  have dec: "length (dec_wire ''0.1'') = 18" "length (dec_wire ''0.20'') = 18"
    "length (dec_wire ''0.01'') = 17"
    by (simp_all add: dec_wire_def dec_scaled_def Cut_def digits_val_def format_nat.simps)
  have "length (enc_fields (description_fields (MsgDescription ?m))) \<le> 100"
    by (rule le) (simp add: description_fields_def str_field_def sample_defs)
  moreover have "length (enc_fields (commission_fields (MsgCommission ?m))) \<le> 200"
    by (rule le) (simp add: commission_fields_def sample_defs dec)
  moreover have "length (enc_fields (key_any_fields (ConsensusPubKeyTypeURL ?m) (ConsensusPubKey ?m))) \<le> 200"
    by (rule order_trans [OF key_any_length]) (simp add: sample_defs)
  moreover have "length (enc_fields (coin_fields (MsgValue ?m))) \<le> 100"
    by (rule le) (simp add: coin_fields_def str_field_def sample_defs)
  moreover have "length (MsgMinSelfDelegation ?m) = 1" "length (DelegatorAddress ?m) = 0"
    "length (ValidatorAddress ?m) = 34"
    by (simp_all add: sample_defs)
  ultimately show ?thesis
    by (intro le) (simp add: msg_fields_def str_field_def del: enc_fields_simps)
qed

lemma sample_direct_length:
  assumes "length c < 1000"
  shows "length (enc_fields (sign_doc_fields (sample_gentx mode) c n)) < 2 ^ 64"
proof -
  let ?g = "sample_gentx mode"
  note le = order_trans [OF length_enc_fields_le]
  have "length (enc_fields (any_fields MsgCreateValidatorTypeURL (enc_fields (msg_fields (Msg ?g))))) \<le> 1200"
    using sample_msg_length [of mode] by (intro order_trans [OF any_length])
      (simp add: MsgCreateValidatorTypeURL_def del: enc_fields_simps)
  then have body: "length (enc_fields (body_fields ?g)) \<le> 1300"
    by (intro le) (simp add: body_fields_def str_field_def num_field_def sample_defs del: enc_fields_simps)
  have "length (enc_fields (key_any_fields (PubKeyTypeURL (Signer ?g)) (PubKey (Signer ?g)))) \<le> 200"
    by (rule order_trans [OF key_any_length]) (simp add: sample_defs)
  moreover have "length (enc_fields [(1, LenDelim (enc_fields [(1, Varint signModeDirect)]))]) \<le> 40"
  proof -
    have "length (enc_fields [(1, Varint signModeDirect)]) \<le> 20" by (rule le) simp
    then show ?thesis by (intro le) (simp del: enc_fields_simps)
  qed
  ultimately have "length (enc_fields (signer_fields (Signer ?g))) \<le> 300"
    by (intro le) (simp add: signer_fields_def num_field_def del: enc_fields_simps)
  moreover have "length (enc_fields (fee_fields (TxFee ?g))) \<le> 100"
    by (rule le) (simp add: fee_fields_def str_field_def num_field_def sample_defs)
  ultimately have "length (enc_fields (auth_fields ?g)) \<le> 500"
    by (intro le) (simp add: auth_fields_def del: enc_fields_simps)
  with body assms have "length (enc_fields (sign_doc_fields ?g c n)) \<le> 4000"
    by (intro le) (simp add: sign_doc_fields_def str_field_def num_field_def del: enc_fields_simps)
  then show ?thesis by simp
qed

section \<open>A gentx of a multisig\<close>

definition sample_member :: "byte \<Rightarrow> MultisigMember" where
  "sample_member k = \<lparr>MemberTypeURL = secp256k1PubKeyTypeURL, MemberPubKey = replicate 33 k\<rparr>"

text \<open>Two of three members sign.\<close>

definition sample_multisig :: MultisigSigner where
  "sample_multisig =
     \<lparr>Threshold = 2, Members = [sample_member 1, sample_member 2, sample_member 3],
      Modes = [signModeAminoJSONName, signModeAminoJSONName], BitarrayElems = [0xA0],
      ExtraBitsStored = 3\<rparr>"

definition sample_sigs :: "bytes list" where
  "sample_sigs = [replicate 64 1, replicate 64 2]"

lemma sample_signing: "signing_members sample_multisig = [0, 2]"
  by (simp add: signing_members_def sample_multisig_def bit_set_def upt_rec)

lemma sample_envelope: "parseMultiSignature (sig_envelope sample_sigs) = Inr sample_sigs"
proof -
  have "length (sig_envelope sample_sigs) \<le> 168"
    unfolding sig_envelope_def
    by (rule order_trans [OF length_enc_fields_le]) (simp add: sample_sigs_def)
  then have "parse_sigs (sig_envelope sample_sigs) = Inr sample_sigs"
    by (intro parse_sigs_envelope) (simp_all add: sample_sigs_def del: sig_envelope_simps)
  then show ?thesis by (simp add: parseMultiSignature_def) (simp add: sample_sigs_def)
qed

lemma sample_multisig_accepts:
  "verifyAminoMultisig (sample_ext (\<lambda>_. True)) sample_multisig (sig_envelope sample_sigs) m = Ret (Inr True)"
  unfolding verifyAminoMultisig_True sample_signing sample_envelope
  by (simp add: sample_multisig_def bitCount_def bitarray_covers_def sample_sigs_def member_signed_def
      sample_member_def sample_secp)

text \<open>Nine members, and one byte of bits that claims to hold nine of them.\<close>

definition overrun_multisig :: MultisigSigner where
  "overrun_multisig =
     \<lparr>Threshold = 1, Members = replicate 9 (sample_member 1), Modes = [signModeAminoJSONName],
      BitarrayElems = [0x80], ExtraBitsStored = 9\<rparr>"

definition overrun_gentx :: ParsedGentx where
  "overrun_gentx = (sample_gentx signModeAminoJSONName)
     \<lparr>Signer := \<lparr>PubKeyTypeURL = legacyAminoPubKeyTypeURL, PubKey = [], Mode = signModeAminoJSONName,
        Sequence = 0, Multisig = Some overrun_multisig\<rparr>\<rparr>"

lemma utf8_modes [simp]: "utf8_valid signModeAminoJSONName" "utf8_valid signModeDirectName"
  by (simp_all add: signModeAminoJSONName_def signModeDirectName_def utf8_literal)

lemma overrun_wf: "gentx_wf overrun_gentx"
proof -
  have "gentx_utf8 overrun_gentx"
    using sample_utf8 [of signModeAminoJSONName]
    by (simp add: gentx_utf8_def overrun_gentx_def Let_def)
  then show ?thesis
    by (simp add: gentx_wf_def overrun_gentx_def multisig_wf_def overrun_multisig_def sample_member_def
        int64_def secp256k1PubKeyTypeURL_def utf8_literal list_all_iff)
qed

lemma overrun_panics: "panics overrun_gentx sample_params"
  by (simp add: panics_def overrun_gentx_def sample_params_def sample_gentx_def sample_msg_def
      bitarray_overrun_def overrun_multisig_def bitCount_def)

end
