(* ===== verification/WireProperties.thy ===== *)
theory WireProperties
  imports Samples
begin

text \<open>
  The properties of the wire writer and of the two kinds of sign bytes: varints and fields read
  back, decimals are canonical, the direct sign bytes are a protobuf message of the gentx, the
  amino sign bytes are a sorted JSON document, and both determine what was signed.
\<close>

section \<open>Varints and fields\<close>

text \<open>C34: a varint reads back in front of any bytes, and is not read past its end.\<close>

theorem Uvarint_appendUvarint:
  "Uvarint (appendUvarint [] v @ r) = (v, int (length (appendUvarint [] v)))"
  using Uvarint_bytes [of v r] by (simp add: uvarint_bytes_def)

text \<open>C35: a varint takes one byte for every seven bits of its value, at least one and at most ten.\<close>

theorem appendUvarint_length:
  "(length (appendUvarint b v) \<le> length b + Suc k \<longleftrightarrow> unat v < 128 ^ Suc k) \<and>
   length b < length (appendUvarint b v) \<and> length (appendUvarint b v) \<le> length b + 10"
  using length_uvarint_le [of v k] length_uvarint_10 [of v] by (simp add: appendUvarint_append)

text \<open>A length-delimited field reads back in front of any bytes.\<close>

theorem appendBytesField_roundtrip:
  assumes "unat n < 2 ^ 61" "length v < 2 ^ 64"
  shows "dec_field (appendBytesField [] n v @ r) = Some ((n, LenDelim v), r)"
  using dec_enc_field [of "(n, LenDelim v)" r] assms
  by (simp add: appendBytesField_append field_ok_def)

theorem appendBytesField_roundtrip_witness:
  "dec_field (appendBytesField [] 3 [1, 2] @ [0xFF]) = Some ((3, LenDelim [1, 2]), [0xFF])"
  by (rule appendBytesField_roundtrip) simp_all

section \<open>Decimals\<close>

text \<open>C33: \<open>legacyDecWire\<close> accepts exactly digits with an optional dot and at most 18 decimals, and
  writes the value in units of \<open>10 ^ -18\<close> as a canonical decimal.\<close>

theorem legacyDecWire_value:
  "legacyDecWire s f = Inr w \<longleftrightarrow> dec_text s \<and> w = bytes_of (format_nat (dec_scaled s))"
  by (rule legacyDecWire_spec)

section \<open>The direct sign bytes\<close>

text \<open>C23: the direct sign bytes exist exactly for the direct mode with digits for amounts and
  decimals for rates, and are the protobuf \<open>SignDoc\<close> of the gentx as a list of fields.\<close>

theorem DirectSignBytes_message:
  "DirectSignBytes g c n = Inr b \<longleftrightarrow>
     Mode (Signer g) = signModeDirectName \<and> msg_ok (Msg g) \<and> fee_ok (TxFee g) \<and>
     b = enc_fields (sign_doc_fields g c n)"
  by (rule DirectSignBytes_fields)

text \<open>C5: two sign documents have the same bytes exactly when they have the same chain id, account
  number and signed content: a signature for one chain or gentx says nothing about another.\<close>

theorem DirectSignBytes_binding:
  assumes "DirectSignBytes g c n = Inr b" "DirectSignBytes g' c' n' = Inr b'" "length b < 2 ^ 64"
  shows "b = b' \<longleftrightarrow> c = c' \<and> n = n' \<and> same_signed g g'"
proof
  assume "b = b'"
  with assms show "c = c' \<and> n = n' \<and> same_signed g g'"
    by (intro DirectSignBytes_inject [of g c n b]) simp_all
next
  assume "c = c' \<and> n = n' \<and> same_signed g g'"
  then have "sign_doc_fields g c n = sign_doc_fields g' c' n'" using sign_doc_same by blast
  with assms(1,2) show "b = b'" by (simp add: DirectSignBytes_fields)
qed

theorem DirectSignBytes_binding_witness:
  "enc_fields (sign_doc_fields (sample_gentx signModeDirectName) ''c-1'' 0) \<noteq>
   enc_fields (sign_doc_fields (sample_gentx signModeDirectName) ''c-2'' 0)"
  using DirectSignBytes_binding [OF sample_direct sample_direct sample_direct_length,
      of "''c-1''" 0 "''c-2''" 0]
  by simp

section \<open>The amino sign bytes\<close>

text \<open>C24: the amino sign bytes exist exactly for the amino mode and an ed25519 consensus key, and are
  the printed form of a JSON document whose keys are strictly increasing at every level.\<close>

theorem AminoSignBytes_document:
  "(AminoSignBytes g c n = Inr b \<longleftrightarrow>
      Mode (Signer g) = signModeAminoJSONName \<and>
      ConsensusPubKeyTypeURL (Msg g) = ed25519PubKeyTypeURL \<and>
      b = bytes_of (jprint (amino_tree g c n))) \<and>
   tree_sorted (amino_tree g c n)"
  by (simp add: AminoSignBytes_tree sorted_amino)

text \<open>The amino sign bytes of valid text parse back to the document.\<close>

theorem AminoSignBytes_parses:
  assumes "AminoSignBytes g c n = Inr b" "gentx_utf8 g" "utf8_valid c"
  shows "parse_tree (string_of b) = Some (amino_tree g c n)"
  using assms amino_tree_printable [of g c n] by (auto simp add: AminoSignBytes_tree json_doc.dec_enc)

lemma sample_amino:
  "AminoSignBytes (sample_gentx signModeAminoJSONName) c n =
     Inr (bytes_of (jprint (amino_tree (sample_gentx signModeAminoJSONName) c n)))"
  by (simp add: AminoSignBytes_tree sample_modes)

theorem AminoSignBytes_parses_witness:
  "parse_tree (jprint (amino_tree (sample_gentx signModeAminoJSONName) ''c-1'' 0)) =
     Some (amino_tree (sample_gentx signModeAminoJSONName) ''c-1'' 0)"
  using AminoSignBytes_parses [OF sample_amino sample_utf8, of "''c-1''" 0]
  by (simp add: utf8_literal)

text \<open>C6: amino sign bytes of valid text are equal exactly when the chain id, the account number and
  the covered content are.\<close>

theorem AminoSignBytes_binding:
  assumes "AminoSignBytes g c n = Inr b" "AminoSignBytes g' c' n' = Inr b'"
    and "gentx_utf8 g" "gentx_utf8 g'" "utf8_valid c" "utf8_valid c'"
  shows "b = b' \<longleftrightarrow> c = c' \<and> n = n' \<and> same_amino g g'"
proof
  assume "b = b'"
  with assms show "c = c' \<and> n = n' \<and> same_amino g g'"
    by (intro AminoSignBytes_inject [of g g' c c' n b]) simp_all
next
  assume "c = c' \<and> n = n' \<and> same_amino g g'"
  then have "amino_tree g c n = amino_tree g' c' n'" using amino_tree_same by blast
  with assms(1,2) show "b = b'" by (simp add: AminoSignBytes_tree)
qed

theorem AminoSignBytes_binding_witness:
  "bytes_of (jprint (amino_tree (sample_gentx signModeAminoJSONName) ''c-1'' 0)) \<noteq>
   bytes_of (jprint (amino_tree (sample_gentx signModeAminoJSONName) ''c-1'' 1))"
  using AminoSignBytes_binding [OF sample_amino sample_amino sample_utf8 sample_utf8,
      of "''c-1''" "''c-1''" 0 1]
  by (simp add: utf8_literal)

lemma direct_first_byte:
  assumes "DirectSignBytes g c n = Inr b"
  shows "hd b = 0x0A"
proof -
  have tag: "uvarint_bytes 10 = [10]" by (subst uvarint_bytes_unfold) (simp add: varintMSB_def)
  show ?thesis
    using assms
    by (auto simp add: DirectSignBytes_fields sign_doc_fields_def enc_field_def append_defs
        wireBytes_def tag)
qed

lemma amino_first_byte:
  assumes "AminoSignBytes g c n = Inr b"
  shows "hd b = 0x7B"
  using assms
  by (auto simp add: AminoSignBytes_tree amino_tree_def enc_object_def bytes_of_def)

text \<open>C25: no bytes are sign bytes of both modes, so a signature made in one mode is never one of the
  other.\<close>

theorem sign_modes_separate:
  assumes "DirectSignBytes g c n = Inr b" "AminoSignBytes g' c' n' = Inr b'"
  shows "b \<noteq> b'"
  using direct_first_byte [OF assms(1)] amino_first_byte [OF assms(2)] by auto

theorem sign_modes_separate_witness:
  "enc_fields (sign_doc_fields (sample_gentx signModeDirectName) ''c-1'' 0) \<noteq>
   bytes_of (jprint (amino_tree (sample_gentx signModeAminoJSONName) ''c-1'' 0))"
  by (rule sign_modes_separate [OF sample_direct sample_amino])

end
