(* ===== verification/SignerProperties.thy ===== *)
theory SignerProperties
  imports Samples
begin

text \<open>
  The properties of the signer: the multisig envelope and bit array, k-of-n verification, the
  preimage and the derived address, and the single-key verifier.
\<close>

section \<open>The envelope\<close>

lemma uvarint_loop_takes:
  "uvarint_loop i x s b = (v, n) \<Longrightarrow> 0 < n \<Longrightarrow>
   \<exists>t u. b = t @ u \<and> t \<noteq> [] \<and> n = int i + int (length t) \<and> (\<forall>r. uvarint_loop i x s (t @ r) = (v, n))"
proof (induction i x s b rule: uvarint_loop.induct)
  case (2 i x s c b)
  show ?case
  proof (cases "c < 0x80 \<or> i = 10")
    case True
    then have "n = int i + int (length [c]) \<and> (\<forall>r. uvarint_loop i x s ([c] @ r) = (v, n))"
      using "2.prems" by (auto split: if_splits)
    then show ?thesis by (metis append_Cons append_Nil not_Cons_self2)
  next
    case False
    then obtain t u where t: "b = t @ u" "n = int (i + 1) + int (length t)"
        "\<forall>r. uvarint_loop (i + 1) (x OR push_bit s (ucast (c AND 0x7F))) (s + 7) (t @ r) = (v, n)"
      using "2.IH" "2.prems" by auto
    with False show ?thesis by (intro exI [of _ "c # t"] exI [of _ u]) simp
  qed
qed simp

text \<open>A varint is read from a prefix, and reads the same whatever follows it.\<close>

definition whole_varint :: "uint64 \<Rightarrow> bytes \<Rightarrow> bool" where
  "whole_varint v t \<longleftrightarrow> t \<noteq> [] \<and> Uvarint t = (v, int (length t))"

lemma Uvarint_takes:
  assumes "Uvarint b = (v, n)" "0 < n"
  obtains t u where "b = t @ u" "nat n = length t" "whole_varint v t"
proof -
  obtain t u where t: "b = t @ u" "t \<noteq> []" "n = int (length t)"
      "\<And>r. uvarint_loop 0 0 0 (t @ r) = (v, n)"
    using uvarint_loop_takes [of 0 0 0 b v n] assms by (auto simp add: Uvarint_def)
  from t(4) [of "[]"] t(2,3) have "whole_varint v t" by (simp add: whole_varint_def Uvarint_def)
  with t(1,3) that show thesis by simp
qed

lemma whole_varint_append:
  assumes "whole_varint v t"
  shows "Uvarint (t @ r) = (v, int (length t))"
proof -
  have "uvarint_loop 0 0 0 t = (v, int (length t))" "0 < int (length t)"
    using assms by (simp_all add: whole_varint_def Uvarint_def)
  then obtain t' u where "t = t' @ u" "length t = length t'" "\<And>r. uvarint_loop 0 0 0 (t' @ r) = (v, int (length t))"
    using uvarint_loop_takes [of 0 0 0 t] by fastforce
  then show ?thesis by (simp add: Uvarint_def)
qed

text \<open>The frame of a signature: the tag, the length and the signature itself.\<close>

definition sig_frame :: "bytes \<Rightarrow> bytes \<Rightarrow> bool" where
  "sig_frame s f \<longleftrightarrow> (\<exists>t l. f = t @ l @ s \<and> whole_varint sigTag t \<and> whole_varint (of_nat (length s)) l)"

lemma parse_sigs_step:
  assumes "b \<noteq> []"
  shows "parse_sigs b = Inr sigs \<longleftrightarrow>
    (\<exists>t l s r rest. b = t @ l @ s @ r \<and> whole_varint sigTag t \<and> whole_varint (of_nat (length s)) l \<and>
       length s < 2 ^ 64 \<and> \<not> of_nat (length (s @ r)) < (of_nat (length s) :: uint64) \<and>
       parse_sigs r = Inr rest \<and> sigs = s # rest)" (is "?l \<longleftrightarrow> ?r")
proof
  assume ?l
  obtain tag n where u: "Uvarint b = (tag, n)" by (cases "Uvarint b")
  let ?b1 = "drop (nat n) b"
  obtain size m where v: "Uvarint ?b1 = (size, m)" by (cases "Uvarint ?b1")
  let ?b2 = "drop (nat m) ?b1"
  have ok: "0 < n" "tag = sigTag" "0 < m" "\<not> of_nat (length ?b2) < size"
    using \<open>?l\<close> assms u v
    by (subst (asm) parse_sigs.simps, force simp add: Let_def not_le split: if_splits prod.splits)+
  then obtain rest where rest: "parse_sigs (drop (unat size) ?b2) = Inr rest"
      "sigs = take (unat size) ?b2 # rest"
    using \<open>?l\<close> assms u v by (subst (asm) parse_sigs.simps) (auto simp add: Let_def)
  obtain t where t: "b = t @ ?b1" "whole_varint sigTag t"
    using Uvarint_takes [OF u ok(1)] ok(2) by (metis append_eq_conv_conj)
  obtain l where l: "?b1 = l @ ?b2" "whole_varint size l"
    using Uvarint_takes [OF v ok(3)] by (metis append_eq_conv_conj)
  let ?s = "take (unat size) ?b2" and ?u = "drop (unat size) ?b2"
  have "unat size \<le> length ?b2"
  proof -
    have "unat size \<le> unat (of_nat (length ?b2) :: uint64)" using ok(4) by (simp add: not_less word_le_nat_alt)
    also have "\<dots> \<le> length ?b2" unfolding unat_of_nat by (rule mod_less_eq_dividend)
    finally show ?thesis .
  qed
  then have "length ?s = unat size" by simp
  moreover have "unat size < 2 ^ 64" using unsigned_less [of size, where ?'a = nat] by simp
  moreover have "?b2 = ?s @ ?u" by (simp only: append_take_drop_id)
  moreover have "of_nat (unat size) = size" by simp
  moreover have "b = t @ l @ ?s @ ?u" using t(1) l(1) by (simp only: append_take_drop_id)
  ultimately show ?r
    using t(2) l(2) ok(4) rest
    by (intro exI [of _ t] exI [of _ l] exI [of _ ?s] exI [of _ ?u] exI [of _ rest]) (simp only:, simp)
next
  assume ?r
  then obtain t l s r rest where b: "b = t @ l @ s @ r" "whole_varint sigTag t"
      "whole_varint (of_nat (length s)) l" "length s < 2 ^ 64"
      "\<not> of_nat (length (s @ r)) < (of_nat (length s) :: uint64)" "parse_sigs r = Inr rest" "sigs = s # rest"
    by blast
  have "unat (of_nat (length s) :: uint64) = length s" using b(4) unfolding unat_of_nat by simp
  moreover have "0 < length t" "0 < length l" using b(2,3) by (simp_all add: whole_varint_def)
  ultimately show ?l
    using b whole_varint_append [OF b(2), of "l @ s @ r"] whole_varint_append [OF b(3), of "s @ r"]
    by (subst parse_sigs.simps) (simp add: not_le del: length_append)
qed

lemma parse_sigs_frames:
  "length b < 2 ^ 64 \<Longrightarrow> parse_sigs b = Inr sigs \<longleftrightarrow> (\<exists>fs. b = concat fs \<and> list_all2 sig_frame sigs fs)"
proof (induction "length b" arbitrary: b sigs rule: less_induct)
  case less
  show ?case
  proof (cases "b = []")
    case True
    have "fs = []" if "concat fs = []" "list_all2 sig_frame sigs fs" for fs
      using that by (cases fs) (auto simp add: list_all2_Cons2 sig_frame_def whole_varint_def)
    then show ?thesis by (auto simp add: True parse_sigs.simps)
  next
    case False
    have fits: "length s < 2 ^ 64" "\<not> of_nat (length (s @ r)) < (of_nat (length s) :: uint64)"
      if "b = t @ l @ s @ r" for t l s r
      using less.prems unfolding that word_less_nat_alt unat_of_nat by simp_all
    have IH: "parse_sigs r = Inr rest \<longleftrightarrow> (\<exists>fs. r = concat fs \<and> list_all2 sig_frame rest fs)"
      if "b = t @ l @ s @ r" "whole_varint sigTag t" for t l s r rest
      using that less.prems by (intro less.hyps) (auto simp add: whole_varint_def)
    show ?thesis
      unfolding parse_sigs_step [OF False]
    proof
      assume "\<exists>t l s r rest. b = t @ l @ s @ r \<and> whole_varint sigTag t \<and> whole_varint (of_nat (length s)) l \<and>
         length s < 2 ^ 64 \<and> \<not> of_nat (length (s @ r)) < (of_nat (length s) :: uint64) \<and>
         parse_sigs r = Inr rest \<and> sigs = s # rest"
      then obtain t l s r rest where b: "b = t @ l @ s @ r" "whole_varint sigTag t"
          "whole_varint (of_nat (length s)) l" "parse_sigs r = Inr rest" "sigs = s # rest"
        by blast
      then obtain fs where fs: "r = concat fs" "list_all2 sig_frame rest fs"
        using IH [OF b(1,2)] by blast
      have "sig_frame s (t @ l @ s)" unfolding sig_frame_def using b(2,3) by blast
      then have "list_all2 sig_frame sigs ((t @ l @ s) # fs)" using fs(2) by (simp add: b(5))
      moreover have "b = concat ((t @ l @ s) # fs)" by (simp add: b(1) fs(1))
      ultimately show "\<exists>fs. b = concat fs \<and> list_all2 sig_frame sigs fs" by blast
    next
      assume "\<exists>fs. b = concat fs \<and> list_all2 sig_frame sigs fs"
      then obtain fs' where fs': "b = concat fs'" "list_all2 sig_frame sigs fs'" by blast
      then obtain f fs where f: "fs' = f # fs" using False by (cases fs') auto
      with fs'(2) obtain s rest where s: "sigs = s # rest" "sig_frame s f" "list_all2 sig_frame rest fs"
        unfolding f list_all2_Cons2 by blast
      from s(2) obtain t l where tl: "f = t @ l @ s" "whole_varint sigTag t" "whole_varint (of_nat (length s)) l"
        by (auto simp add: sig_frame_def)
      have b: "b = t @ l @ s @ concat fs" by (simp add: fs'(1) f tl(1))
      have rest: "parse_sigs (concat fs) = Inr rest" using IH [OF b tl(2)] s(3) by blast
      show "\<exists>t l s r rest. b = t @ l @ s @ r \<and> whole_varint sigTag t \<and> whole_varint (of_nat (length s)) l \<and>
         length s < 2 ^ 64 \<and> \<not> of_nat (length (s @ r)) < (of_nat (length s) :: uint64) \<and>
         parse_sigs r = Inr rest \<and> sigs = s # rest"
        by (intro exI conjI) (rule b tl(2) tl(3) fits [OF b] rest s(1))+
    qed
  qed
qed

text \<open>C27: an envelope written as the protobuf message \<open>repeated bytes signatures = 1\<close> reads back
  as its signatures.\<close>

theorem parseMultiSignature_roundtrip:
  assumes "sigs \<noteq> []" "\<forall>s\<in>set sigs. length s < 2 ^ 63" "length (sig_envelope sigs) < 2 ^ 63"
  shows "parseMultiSignature (sig_envelope sigs) = Inr sigs"
  using assms parse_sigs_envelope [of sigs] by (simp add: parseMultiSignature_def)

theorem parseMultiSignature_roundtrip_witness:
  "parseMultiSignature (sig_envelope [[1, 2, 3], []]) = Inr [[1, 2, 3], []]"
proof (rule parseMultiSignature_roundtrip)
  show "length (sig_envelope [[1, 2, 3], []]) < 2 ^ 63"
  proof -
    have "length (sig_envelope [[1, 2, 3], []]) \<le> 43"
      unfolding sig_envelope_def by (rule order_trans [OF length_enc_fields_le]) simp
    then show ?thesis by simp
  qed
qed simp_all

text \<open>C28: the parser accepts exactly the envelopes that are frames one behind the other, at least one
  of them, each a tag, a length and that many bytes; the signatures are those bytes, in order, so
  they are disjoint slices that leave nothing of the envelope out but the framing.\<close>

theorem parseMultiSignature_frames:
  assumes "length b < 2 ^ 63"
  shows "parseMultiSignature b = Inr sigs \<longleftrightarrow>
    sigs \<noteq> [] \<and> (\<exists>frames. b = concat frames \<and>
      list_all2 (\<lambda>s f. \<exists>t l. f = t @ l @ s \<and> t \<noteq> [] \<and> l \<noteq> [] \<and>
        Uvarint t = (sigTag, int (length t)) \<and> Uvarint l = (of_nat (length s), int (length l)))
        sigs frames)"
proof -
  have "sig_frame = (\<lambda>s f. \<exists>t l. f = t @ l @ s \<and> t \<noteq> [] \<and> l \<noteq> [] \<and>
      Uvarint t = (sigTag, int (length t)) \<and> Uvarint l = (of_nat (length s), int (length l)))"
    unfolding sig_frame_def whole_varint_def by (intro ext) blast
  then show ?thesis using parse_sigs_frames [of b sigs] assms by (auto simp add: parseMultiSignature_def)
qed

theorem parseMultiSignature_frames_witness:
  "parseMultiSignature [10, 2, 7, 8, 10, 0] = Inr [[7, 8], []]"
proof -
  let ?frame = "\<lambda>s f. \<exists>t l. f = t @ l @ s \<and> t \<noteq> [] \<and> l \<noteq> [] \<and>
    Uvarint t = (sigTag, int (length t)) \<and> Uvarint l = (of_nat (length s), int (length l))"
  have tag: "sigTag = 10" by (simp add: sigTag_def wireBytes_def)
  have "?frame [7, 8] [10, 2, 7, 8]"
    by (rule exI [of _ "[10]"], rule exI [of _ "[2]"]) (simp add: Uvarint_def tag)
  moreover have "?frame [] [10, 0]"
    by (rule exI [of _ "[10]"], rule exI [of _ "[0]"]) (simp add: Uvarint_def tag)
  ultimately have "list_all2 ?frame [[7, 8], []] [[10, 2, 7, 8], [10, 0]]" by (simp only: list.rel_inject list.rel_intros)
  then show ?thesis
    by (subst parseMultiSignature_frames) (simp, intro conjI exI [of _ "[[10, 2, 7, 8], [10, 0]]"], simp_all)
qed

section \<open>Verification of a multisig\<close>

text \<open>C29: the members read off the bit array are exactly the set bits, in order, when the array has
  a bit for every member, and the index panics otherwise.\<close>

theorem signerIndices_spec:
  "signerIndices ms =
     (if length (Members ms) \<le> 8 * length (BitarrayElems ms)
      then Ret (filter (bit_set (BitarrayElems ms)) [0..<length (Members ms)]) else Panic)"
  by (simp add: signerIndices_members bitarray_covers_def signing_members_def)

text \<open>C13: the complete acceptance condition of a multisig.\<close>

theorem verifyAminoMultisig_accepts:
  "verifyAminoMultisig X ms sig m = Ret (Inr True) \<longleftrightarrow>
     set (Modes ms) \<subseteq> {signModeAminoJSONName} \<and> length (Modes ms) = length (signing_members ms) \<and>
     bitCount ms = int (length (Members ms)) \<and> bitarray_covers ms \<and>
     unat (Threshold ms) \<le> length (signing_members ms) \<and>
     (\<exists>sigs. parseMultiSignature sig = Inr sigs \<and>
        list_all2 (\<lambda>i s. member_signed X m (Members ms ! i) s) (signing_members ms) sigs)"
  unfolding verifyAminoMultisig_True by blast

text \<open>C12: an accepted multisig is k-of-n over its own envelope. The signatures parsed from the
  envelope are at least as many as the threshold, and are assigned in order to distinct members, each
  of which has verified the signature at its position over the same bytes.\<close>

theorem verifyAminoMultisig_threshold:
  assumes "verifyAminoMultisig X ms sig m = Ret (Inr True)"
  shows "\<exists>sigs members. parseMultiSignature sig = Inr sigs \<and> unat (Threshold ms) \<le> length sigs \<and>
    sorted_wrt (<) members \<and> set members \<subseteq> {..<length (Members ms)} \<and>
    list_all2 (\<lambda>i s. MemberTypeURL (Members ms ! i) = secp256k1PubKeyTypeURL \<and> length s = 64 \<and>
      secp_valid X (MemberPubKey (Members ms ! i)) s m) members sigs"
  using assms by (rule verifyAminoMultisig_k_of_n)

theorem verifyAminoMultisig_threshold_witness:
  "\<exists>sigs members. parseMultiSignature (sig_envelope sample_sigs) = Inr sigs \<and> 2 \<le> length sigs \<and>
    sorted_wrt (<) members \<and> set members \<subseteq> {..<3} \<and>
    list_all2 (\<lambda>i s. MemberTypeURL (Members sample_multisig ! i) = secp256k1PubKeyTypeURL \<and> length s = 64 \<and>
      secp_valid (sample_ext (\<lambda>_. True)) (MemberPubKey (Members sample_multisig ! i)) s [1, 2]) members sigs"
proof -
  have "length (Members sample_multisig) = 3" "unat (Threshold sample_multisig) = 2"
    by (simp_all add: sample_multisig_def)
  then show ?thesis
    using verifyAminoMultisig_threshold [OF sample_multisig_accepts [of "[1, 2]"]] by simp
qed

text \<open>C31: the verification of a multisig panics exactly when every declared mode is the amino one and
  the claimed number of bits is the number of members, but the bit array has fewer bits. Whatever the
  envelope, the keys and the third-party verifier are, nothing else makes it panic.\<close>

theorem verifyAminoMultisig_panics:
  "verifyAminoMultisig X ms sig m = Panic \<longleftrightarrow>
     set (Modes ms) \<subseteq> {signModeAminoJSONName} \<and> bitCount ms = int (length (Members ms)) \<and>
     8 * length (BitarrayElems ms) < length (Members ms)"
  by (auto simp add: verifyAminoMultisig_Panic bitarray_covers_def)

text \<open>An extra-bit count between 0 and 7 rules that out.\<close>

theorem verifyAminoMultisig_returns:
  assumes "0 \<le> ExtraBitsStored ms" "ExtraBitsStored ms < 8" "length (BitarrayElems ms) < 2 ^ 59"
  shows "verifyAminoMultisig X ms sig m \<noteq> Panic"
  using assms bitarray_covers_extra [of ms] by (auto simp add: verifyAminoMultisig_Panic)

theorem verifyAminoMultisig_returns_witness:
  "verifyAminoMultisig (sample_ext (\<lambda>_. True)) sample_multisig [] [] \<noteq> Panic"
  by (rule verifyAminoMultisig_returns) (simp_all add: sample_multisig_def)

section \<open>Addresses\<close>

text \<open>C30: the address preimage determines the threshold and the members, their order and key types
  included, so two multisigs with the same account address collide in SHA-256.\<close>

theorem multisigPreimage_injective:
  assumes "multisigPreimage ms = Inr b" "multisigPreimage ms' = Inr b" "length b < 2 ^ 64"
  shows "Threshold ms = Threshold ms' \<and> Members ms = Members ms'"
  using assms by (rule multisigPreimage_inject)

theorem multisigPreimage_injective_witness:
  "Threshold sample_multisig = Threshold (sample_multisig\<lparr>Modes := []\<rparr>) \<and>
   Members sample_multisig = Members (sample_multisig\<lparr>Modes := []\<rparr>)"
proof (rule multisigPreimage_injective)
  let ?b = "multisigAminoPrefix @ enc_fields (multisig_fields sample_multisig)"
  show "multisigPreimage sample_multisig = Inr ?b"
    by (simp add: multisigPreimage_fields)
       (simp add: sample_multisig_def sample_member_def member_ok_def memberAminoPrefixes_def)
  then show "multisigPreimage (sample_multisig\<lparr>Modes := []\<rparr>) = Inr ?b"
    by (simp add: multisigPreimage_def)
  have entry: "length (member_entry (sample_member k)) \<le> 47" for k
    using length_uvarint_10 [of "of_nat 33"]
    by (simp add: member_entry_def sample_member_def memberAminoPrefixes_def secpAminoPrefix_def
        ed25519AminoPrefix_def)
  have "length (enc_fields (multisig_fields sample_multisig)) \<le> 20 + 3 * 67"
    by (intro order_trans [OF length_enc_fields_le])
       (use entry [of 1] entry [of 2] entry [of 3] in
         \<open>simp add: multisig_fields_def sample_multisig_def\<close>)
  then show "length ?b < 2 ^ 64" by (simp add: multisigAminoPrefix_def)
qed



section \<open>A single key\<close>

text \<open>C26: the direct verifier always returns, and says yes exactly when the gentx has a 33-byte
  secp256k1 key, a 64-byte signature and sign bytes that the signature verifies over.\<close>

theorem VerifyDirect_spec:
  "VerifyDirect X g c n \<noteq> Panic \<and>
   (VerifyDirect X g c n = Ret (Inr True) \<longleftrightarrow>
      (\<exists>b. DirectSignBytes g c n = Inr b \<and> PubKeyTypeURL (Signer g) = secp256k1PubKeyTypeURL \<and>
         length (PubKey (Signer g)) = 33 \<and> length (Signature g) = 64 \<and>
         secp_valid X (PubKey (Signer g)) (Signature g) b))"
  using VerifyDirect_returns VerifyDirect_True single_signed_def by metis

end
