(* ===== verification/PolicyProperties.thy ===== *)
theory PolicyProperties
  imports Samples
begin

text \<open>
  The properties of the single checks: each passes exactly under its condition on the values of the
  fields, and on a decoded gentx the moniker is never rejected for its encoding.
\<close>

text \<open>C37: the self-delegation check passes exactly when the launch declares no floor, or when the floor
  is a non-negative integer and the amount an integer at least the floor. A negative floor fails for
  every amount.\<close>

theorem CheckSelfDelegation_spec:
  "OK (CheckSelfDelegation g p) \<longleftrightarrow> ParamMinSelfDelegation p = [] \<or>
     (\<exists>floor amount. big_SetString (ParamMinSelfDelegation p) = Some floor \<and>
        big_SetString (Amount (MsgValue (Msg g))) = Some amount \<and> 0 \<le> floor \<and> floor \<le> amount)"
  unfolding CheckSelfDelegation_OK self_delegation_ok_def ..

text \<open>C36: the two consistency checks pass together exactly when the three rates are decimals with
  rate and change rate at most the maximum rate and the maximum rate at most one.\<close>

theorem CheckCommission_spec:
  "OK (CheckCommissionConsistency g) \<and> OK (CheckCommissionChangeRate g) \<longleftrightarrow>
     (let c = MsgCommission (Msg g) in
      dec_text (Rate c) \<and> dec_text (MaxRate c) \<and> dec_text (MaxChangeRate c) \<and>
      dec_scaled (Rate c) \<le> dec_scaled (MaxRate c) \<and> dec_scaled (MaxRate c) \<le> 10 ^ 18 \<and>
      dec_scaled (MaxChangeRate c) \<le> dec_scaled (MaxRate c))"
  by (auto simp add: Check_OK commission_consistent_def change_rate_ok_def Let_def)

text \<open>C40: the check of the launch bounds passes exactly when the commission rate is a decimal, declared
  bounds or not, and every declared bound is a decimal and holds: the floor for the rate, the ceiling
  for the rate and for the maximum rate, which must then be a decimal, and the change ceiling for the
  change rate, which must then be a decimal.\<close>

theorem CheckCommissionBounds_spec:
  "OK (CheckCommissionBounds g p) \<longleftrightarrow>
     (let c = MsgCommission (Msg g); floor = MinCommissionRate p; ceiling = MaxCommissionRate p;
          change = MaxCommissionChangeRate p in
      dec_text (Rate c) \<and>
      (floor = [] \<or> dec_text floor \<and> dec_scaled floor \<le> dec_scaled (Rate c)) \<and>
      (ceiling = [] \<or> dec_text ceiling \<and> dec_scaled (Rate c) \<le> dec_scaled ceiling \<and>
         dec_text (MaxRate c) \<and> dec_scaled (MaxRate c) \<le> dec_scaled ceiling) \<and>
      (change = [] \<or> dec_text change \<and> dec_text (MaxChangeRate c) \<and>
         dec_scaled (MaxChangeRate c) \<le> dec_scaled change))"
  unfolding CheckCommissionBounds_OK commission_bounds_ok_def Let_def by blast

text \<open>C38: the moniker check passes exactly on a non-empty text of at most the allowed number of
  bytes that is the UTF-8 encoding of scalar values none of which is a control character.\<close>

theorem CheckMoniker_spec:
  "OK (CheckMoniker g p) \<longleftrightarrow>
     (let m = Moniker (MsgDescription (Msg g)) in
      m \<noteq> [] \<and> int (length m) \<le> maxMonikerLen p \<and>
      (\<exists>rs. list_all (\<lambda>r. scalar r \<and> \<not> IsControl r) rs \<and> m = utf8_text rs))"
  unfolding CheckMoniker_OK moniker_ok_def Let_def list_all_iff ..

text \<open>C39: the operator check passes exactly when the launch sets an account prefix, the signer has an
  account address, the validator address carries that account under the operator prefix, and the
  delegator address is empty or carries it under the account prefix.\<close>

theorem CheckOperatorAddress_spec:
  "OK (CheckOperatorAddress X g p) \<longleftrightarrow> Bech32Prefix p \<noteq> [] \<and>
     (\<exists>account. signerAddressBytes X (Signer g) = Inr account \<and>
        decodeBech32Address X (ValidatorAddress (Msg g)) (Bech32Prefix p @ ''valoper'') = Inr account \<and>
        (DelegatorAddress (Msg g) = [] \<or>
         decodeBech32Address X (DelegatorAddress (Msg g)) (Bech32Prefix p) = Inr account))"
  unfolding CheckOperatorAddress_OK operator_ok_def ..

section \<open>Results\<close>

lemma moniker_reason:
  "Reason (CheckMoniker g p) = MonikerNotUtf8 \<Longrightarrow> \<not> utf8_valid (Moniker (MsgDescription (Msg g)))"
  by (simp add: CheckMoniker_def Let_def split: if_splits option.splits)

text \<open>On a decoded gentx the moniker check never reports invalid UTF-8: the JSON decoder has
  replaced it already.\<close>

theorem moniker_utf8_unreachable:
  assumes "Decode raw = Inr g"
  shows "Reason (CheckMoniker g p) \<noteq> MonikerNotUtf8"
  using moniker_reason [of g p] Decode_wf [OF assms] by (auto simp add: gentx_wf_def gentx_utf8_def Let_def)

theorem moniker_utf8_unreachable_witness:
  "Reason (CheckMoniker (sample_gentx signModeDirectName) sample_params) \<noteq> MonikerNotUtf8"
  by (rule moniker_utf8_unreachable [OF Decode_gentx_doc [OF sample_wf]]) simp

text \<open>A result passes exactly when it has no reason.\<close>

definition result_ok :: "Result \<Rightarrow> bool" where
  "result_ok r \<longleftrightarrow> (OK r \<longleftrightarrow> Reason r = NoReason)"

lemma result_ok_simps [simp]: "result_ok (pass i)" "result_ok (fail i r) \<longleftrightarrow> r \<noteq> NoReason"
  by (simp_all add: result_ok_def)

lemma bounds_result_ok:
  "boundFloor c p r = Some x \<Longrightarrow> result_ok x" "boundCeiling c p r = Some x \<Longrightarrow> result_ok x"
  "boundChange c p = Some x \<Longrightarrow> result_ok x"
  by (auto simp add: boundFloor_def boundCeiling_def boundChange_def split: if_splits sum.splits)

lemma checks_result_ok:
  "result_ok (CheckBondDenom g p)" "result_ok (CheckSelfDelegation g p)"
  "result_ok (CheckCommissionConsistency g)" "result_ok (CheckCommissionChangeRate g)"
  "result_ok (CheckCommissionBounds g p)" "result_ok (CheckMoniker g p)"
  "result_ok (CheckOperatorAddress X g p)" "result_ok (CheckConsensusPubKey g)"
  by (simp_all add: CheckBondDenom_def CheckSelfDelegation_def CheckCommissionConsistency_def
      CheckCommissionChangeRate_def CheckCommissionBounds_def CheckMoniker_def
      CheckOperatorAddress_def CheckConsensusPubKey_def Let_def bounds_result_ok
      split: option.split sum.split)

lemma RunLight_result_ok: "list_all result_ok (RunLight X raw p)"
  by (simp add: RunLight_def lightChecks_def checks_result_ok split: sum.split)

text \<open>C17: the light run reports its invariants under fixed identifiers in a fixed order, and every
  result has a reason exactly when it fails.\<close>

theorem RunLight_results:
  "map Invariant (RunLight X raw p) = InvWellFormed #
     (case Decode raw of
        Inl _ \<Rightarrow> []
      | Inr _ \<Rightarrow> [InvBondDenom, InvSelfDelegation, InvCommissionConsistency,
          InvCommissionChangeRate, InvCommissionBounds, InvMoniker, InvOperatorAddress,
          InvConsensusPubKey]) \<and>
   list_all (\<lambda>r. OK r \<longleftrightarrow> Reason r = NoReason) (RunLight X raw p)"
proof
  show "list_all (\<lambda>r. OK r \<longleftrightarrow> Reason r = NoReason) (RunLight X raw p)"
    using RunLight_result_ok unfolding result_ok_def .
qed (simp add: RunLight_def lightChecks_ids split: sum.split)

end
