(* ===== verification/JsonLocal.thy ===== *)
theory JsonLocal
  imports GoJson "HOL-Library.Sublist"
begin

text \<open>
  The parser is local: what it makes of a value does not depend on the text behind it. So the
  source text kept for an array element or an object value is itself a document, with the same
  tree. This is what lets a program parse the pieces of a document again, level by level.
\<close>

section \<open>Suffixes\<close>

lemma suffix_split:
  assumes "a @ b = s @ r" "length r \<le> length b"
  obtains b' where "b = b' @ r" "s = a @ b'"
  using assms by (auto simp add: append_eq_append_conv2)

text \<open>A tokenizer takes a prefix of its input, and takes the same when the rest is cut short.\<close>

locale local_parser =
  fixes p :: "string \<Rightarrow> ('a \<times> string) option"
  assumes takes: "p s = Some (v, r) \<Longrightarrow> \<exists>u. s = u @ r \<and> u \<noteq> []"
    and cut: "p (s @ r) = Some (v, t @ r) \<Longrightarrow> p s = Some (v, t)"
begin

lemma cut_to:
  assumes "p (s @ r) = Some (v, u)" "length r \<le> length u"
  obtains t where "u = t @ r" "p s = Some (v, t)"
proof -
  obtain w where "s @ r = w @ u" using takes [OF assms(1)] by blast
  then obtain t where "u = t @ r" using assms(2) suffix_split [of w u s r] by metis
  with assms(1) cut that show ?thesis by blast
qed

lemma raw_text_parses:
  assumes "p s = Some (v, r)"
  shows "p (raw_text s r) = Some (v, [])"
proof -
  obtain u where u: "s = u @ r" using takes [OF assms] by blast
  then have "p u = Some (v, [])" using assms cut [of u r v "[]"] by simp
  with u show ?thesis by (simp add: raw_text_def)
qed

lemma shorter: "p s = Some (v, r) \<Longrightarrow> length r < length s"
  using takes by force

end

lemma raw_text_cut: "length t \<le> length s \<Longrightarrow> raw_text (s @ r) (t @ r) = raw_text s t"
  by (simp add: raw_text_def)

lemma skip_ws_cut:
  assumes "length r \<le> length (skip_ws (s @ r))"
  shows "skip_ws (s @ r) = skip_ws s @ r"
proof (cases "\<forall>c\<in>set s. is_space c")
  case True
  then have "skip_ws (s @ r) = skip_ws r" "skip_ws s = []"
    by (simp_all add: skip_ws_def dropWhile_append)
  with assms show ?thesis
    by (metis append_Nil le_antisym length_dropWhile_le skip_ws_def suffix_dropWhile suffix_length_suffix
        same_length_different suffix_order.eq_iff)
next
  case False
  then show ?thesis by (auto simp add: skip_ws_def dropWhile_append)
qed

lemma ws_cut:
  assumes "skip_ws (s @ r) = c # u" "length r \<le> length u"
  obtains t where "u = t @ r" "skip_ws s = c # t"
proof -
  have "skip_ws s @ r = c # u" using skip_ws_cut [of r s] assms by simp
  with assms(2) that show ?thesis by (cases "skip_ws s") auto
qed

section \<open>Strings\<close>

lemma hex4_takes: "hex4 s = Some (n, r) \<Longrightarrow> \<exists>u. s = u @ r \<and> length u = 4"
  by (cases s rule: hex4.cases) (auto split: option.splits)

lemma hex4_cut:
  assumes "hex4 (s @ r) = Some (n, t @ r)"
  shows "hex4 s = Some (n, t)"
proof -
  obtain u where u: "s @ r = u @ t @ r" "length u = 4" using hex4_takes [OF assms] by blast
  then obtain a b c d where "u = [a, b, c, d]" by (auto simp add: length_Suc_conv numeral_eq_Suc)
  with u assms show ?thesis by (auto split: option.splits)
qed

interpretation hex4: local_parser hex4
proof unfold_locales
  show "\<exists>u. s = u @ r \<and> u \<noteq> []" if "hex4 s = Some (n, r)" for s n r
    using hex4_takes [OF that] by (metis list.size(3) zero_neq_numeral)
qed (rule hex4_cut)

lemma pair_rune_takes: "\<exists>u. s = u @ snd (pair_rune r s)"
  by (cases "(r, s)" rule: pair_rune.cases) (auto split: option.split dest!: hex4_takes)

lemma hex4_append: "hex4 s = Some (n, u) \<Longrightarrow> hex4 (s @ r) = Some (n, u @ r)"
  by (cases s rule: hex4.cases) (auto split: option.splits)

text \<open>Either an escaped low surrogate follows, and the pair is read, or nothing is.\<close>

definition escaped_low :: "nat \<Rightarrow> string \<Rightarrow> nat \<Rightarrow> string \<Rightarrow> bool" where
  "escaped_low w s n u \<longleftrightarrow> high_surrogate w \<and> low_surrogate n \<and>
     (\<exists>s'. s = CHR 0x5C # CHR ''u'' # s' \<and> hex4 s' = Some (n, u))"

lemma pair_rune_cases:
  obtains n u where "escaped_low w s n u"
    "pair_rune w s = ((w - 55296) * 1024 + (n - 56320) + 65536, u)"
  | "\<forall>n u. \<not> escaped_low w s n u" "pair_rune w s = (w, s)"
proof (cases "\<exists>n u. escaped_low w s n u")
  case True
  then obtain n u where nu: "escaped_low w s n u" by blast
  then have "pair_rune w s = ((w - 55296) * 1024 + (n - 56320) + 65536, u)"
    by (auto simp add: escaped_low_def)
  with nu that(1) show thesis by blast
next
  case False
  moreover from this have "pair_rune w s = (w, s)"
    by (cases "(w, s)" rule: pair_rune.cases) (auto simp add: escaped_low_def split: option.split)
  ultimately show thesis using that(2) by blast
qed

lemma escaped_low_append: "escaped_low w s n u \<Longrightarrow> escaped_low w (s @ r) n (u @ r)"
  by (auto simp add: escaped_low_def hex4_append)

lemma escaped_low_cut:
  assumes "escaped_low w (s @ r) n (t @ r)"
  shows "escaped_low w s n t"
proof -
  from assms obtain s' where s': "s @ r = CHR 0x5C # CHR ''u'' # s'" "hex4 s' = Some (n, t @ r)"
    by (auto simp add: escaped_low_def)
  then obtain u where u: "s' = u @ t @ r" "length u = 4" using hex4_takes by blast
  with s'(1) have "s @ r = (CHR 0x5C # CHR ''u'' # u @ t) @ r" by simp
  then have "s = CHR 0x5C # CHR ''u'' # u @ t" by (simp only: append_same_eq)
  moreover from this s' u have "hex4 (u @ t) = Some (n, t)"
    using hex4_cut [of "u @ t" r n t] by simp
  ultimately show ?thesis using assms by (auto simp add: escaped_low_def)
qed

lemma pair_rune_cut:
  assumes "pair_rune w (s @ r) = (x, t @ r)"
  shows "pair_rune w s = (x, t)"
proof (rule pair_rune_cases [of w "s @ r"])
  fix n u
  assume "escaped_low w (s @ r) n u"
    "pair_rune w (s @ r) = ((w - 55296) * 1024 + (n - 56320) + 65536, u)"
  with assms have "escaped_low w s n t" "x = (w - 55296) * 1024 + (n - 56320) + 65536"
    using escaped_low_cut by auto
  then show ?thesis by (auto simp add: escaped_low_def)
next
  assume no: "\<forall>n u. \<not> escaped_low w (s @ r) n u" "pair_rune w (s @ r) = (w, s @ r)"
  then have "\<forall>n u. \<not> escaped_low w s n u" using escaped_low_append by blast
  then have "pair_rune w s = (w, s)" using pair_rune_cases [of w s] by metis
  with no(2) assms show ?thesis by simp
qed

lemma decode_rune_cut:
  assumes "s \<noteq> []" "snd (decode_rune (s @ r)) \<le> length s"
  shows "decode_rune s = decode_rune (s @ r)"
proof (cases "decode_rune s = (RuneError, 1)")
  case True
  show ?thesis
  proof (rule ccontr)
    obtain w n where w: "decode_rune (s @ r) = (w, n)" by (cases "decode_rune (s @ r)")
    assume "decode_rune s \<noteq> decode_rune (s @ r)"
    then have e: "scalar w" "take n (s @ r) = encode_scalar w" "n = length (encode_scalar w)"
      using decode_rune_encoded [OF _ w] assms(1) w True by auto
    then have "s = encode_scalar w @ drop n s" using assms(2) w by (metis append_take_drop_id snd_conv take_append diff_is_0_eq take0 append_Nil2)
    then have "decode_rune s = (w, n)" using decode_encode_scalar [OF e(1)] e(3) by metis
    with w \<open>decode_rune s \<noteq> decode_rune (s @ r)\<close> show False by simp
  qed
next
  case False
  obtain w n where w: "decode_rune s = (w, n)" by (cases "decode_rune s")
  with False have e: "scalar w" "take n s = encode_scalar w" "n = length (encode_scalar w)"
    using decode_rune_encoded [OF assms(1) w] by auto
  then have "s @ r = encode_scalar w @ drop n s @ r" by (metis append_assoc append_take_drop_id)
  then show ?thesis using decode_encode_scalar [OF e(1)] e(3) w by metis
qed

lemma str_step_takes:
  assumes "str_step s = Some (d, r)"
  shows "\<exists>u. s = u @ r \<and> u \<noteq> []"
proof (cases s)
  case Nil
  with assms show ?thesis by simp
next
  case (Cons c s')
  show ?thesis
  proof (cases "c = CHR 0x5C")
    case esc: True
    then obtain e t where s': "s' = e # t" using assms Cons by (cases s') (auto simp add: str_step.simps(2))
    show ?thesis
    proof (cases "e = CHR ''u''")
      case True
      then obtain w x where w: "hex4 t = Some (w, x)" "r = snd (pair_rune w x)"
        using assms by (auto simp add: Cons esc s' str_step.simps(2))
      then obtain u v where "t = u @ x" "x = v @ r" using hex4_takes pair_rune_takes by metis
      then show ?thesis by (simp add: Cons s')
    next
      case False
      with assms have "r = t" by (auto simp add: Cons esc s' str_step.simps(2))
      then show ?thesis by (simp add: Cons s')
    qed
  next
    case False
    then have "r = s' \<or> r = drop (snd (decode_rune s)) s"
      using assms by (auto simp add: Cons str_step.simps(2) split: if_splits)
    then show ?thesis
    proof
      assume "r = drop (snd (decode_rune s)) s"
      then have "s = take (snd (decode_rune s)) s @ r" by simp
      moreover have "take (snd (decode_rune s)) s \<noteq> []"
        using decode_rune_width_snd [of s] by (simp add: Cons)
      ultimately show ?thesis by blast
    qed (simp add: Cons)
  qed
qed

lemma str_step_escape:
  "str_step (CHR 0x5C # e # x) = Some (d, q) \<Longrightarrow>
   q = x \<or> (\<exists>w y. hex4 x = Some (w, y) \<and> q = snd (pair_rune w y))"
  by (auto simp add: str_step.simps(2) split: if_splits)

lemma str_step_cut:
  assumes "str_step (s @ r) = Some (d, t @ r)"
  shows "str_step s = Some (d, t)"
proof -
  have len: "length t < length s" using str_step_length [OF assms] by simp
  then obtain c s' where s: "s = c # s'" by (cases s) auto
  show ?thesis
  proof (cases "c = CHR 0x5C")
    case esc: True
    have "s' \<noteq> []"
    proof
      assume "s' = []"
      with assms len have step: "str_step (CHR 0x5C # r) = Some (d, r)" by (simp add: s esc)
      then obtain e x where r: "r = e # x" by (cases r) (auto simp add: str_step.simps(2))
      have "length (snd (pair_rune w y)) < length x" if "hex4 x = Some (w, y)" for w y
        using pair_rune_length [of w y] hex4_length [OF that] by simp
      moreover have "r = x \<or> (\<exists>w y. hex4 x = Some (w, y) \<and> r = snd (pair_rune w y))"
        using str_step_escape [of e x d r] step by (simp only: r)
      ultimately have "length r \<le> length x" by (metis less_imp_le order_refl)
      then show False by (simp add: r)
    qed
    then obtain e x where s': "s' = e # x" by (cases s') auto
    show ?thesis
    proof (cases "e = CHR ''u''")
      case True
      then obtain w y where w: "hex4 (x @ r) = Some (w, y)" "t @ r = snd (pair_rune w y)"
        "d = encode_rune (fst (pair_rune w y))"
        using assms by (auto simp add: s esc s' str_step.simps(2))
      have "length r \<le> length y" using pair_rune_length [of w y] by (simp flip: w(2))
      with w(1) obtain z where z: "y = z @ r" "hex4 x = Some (w, z)" by (rule hex4.cut_to)
      then have "pair_rune w z = (fst (pair_rune w y), t)"
        using w(2) by (intro pair_rune_cut [of w z r]) (simp add: prod_eq_iff)
      then show ?thesis using z w(3) by (simp add: s esc s' True str_step.simps(2))
    next
      case False
      with assms show ?thesis by (auto simp add: s esc s' str_step.simps(2))
    qed
  next
    case False
    show ?thesis
    proof (cases "ord_of c < 128")
      case True
      with False assms show ?thesis by (auto simp add: s str_step.simps(2) split: if_splits)
    next
      case big: False
      let ?w = "decode_rune (s @ r)"
      have d: "d = encode_rune (fst ?w)" "t @ r = drop (snd ?w) (s @ r)"
        using assms False big by (auto simp add: s str_step.simps(2) split: if_splits)
      have "length (t @ r) = length (s @ r) - snd ?w" unfolding d(2) by simp
      moreover have "snd ?w \<le> length (s @ r)"
        using decode_rune_width [of "s @ r"] s by (cases ?w) auto
      ultimately have w: "snd ?w \<le> length s" by simp
      then have "decode_rune s = ?w" by (intro decode_rune_cut) (simp_all add: s)
      moreover have "t = drop (snd ?w) s" using d(2) w by simp
      ultimately show ?thesis using False big d(1) by (simp add: s str_step.simps(2) del: drop_Cons')
    qed
  qed
qed

interpretation str_step: local_parser str_step
  by unfold_locales (use str_step_takes str_step_cut in blast)+

lemma pstr_takes: "pstr s = Some (v, r) \<Longrightarrow> \<exists>u. s = u @ r \<and> u \<noteq> []"
proof (induction "length s" arbitrary: s v rule: less_induct)
  case less
  from less.prems show ?case
  proof (rule pstr_cases)
    fix d w x
    assume w: "str_step s = Some (d, w)" "pstr w = Some (x, r)"
    then obtain u u' where "s = u @ w" "w = u' @ r" "u \<noteq> []"
      using str_step_takes [OF w(1)] less.hyps [OF str_step_length [OF w(1)] w(2)] by blast
    then show ?thesis by auto
  qed auto
qed

lemma pstr_cut: "pstr (s @ r) = Some (v, t @ r) \<Longrightarrow> pstr s = Some (v, t)"
proof (induction "length s" arbitrary: s v rule: less_induct)
  case less
  have "length t < length s" using pstr_length [OF less.prems] by simp
  then obtain c s' where s: "s = c # s'" by (cases s) auto
  show ?case
  proof (cases "c = CHR ''\"''")
    case True
    with less.prems show ?thesis by (simp add: s pstr.simps)
  next
    case False
    then obtain d w x where w: "str_step (s @ r) = Some (d, w)" "pstr w = Some (x, t @ r)" "v = d @ x"
      using less.prems by (subst (asm) pstr.simps) (auto simp add: s split: option.splits)
    have "length r \<le> length w" using pstr_length [OF w(2)] by simp
    with w(1) obtain y where y: "w = y @ r" "str_step s = Some (d, y)" by (rule str_step.cut_to)
    then have "pstr y = Some (x, t)" using less.hyps [OF str_step_length [OF y(2)]] w(2) by simp
    with y w(3) False show ?thesis by (subst pstr.simps) (simp add: s)
  qed
qed

interpretation pstr: local_parser pstr
  by unfold_locales (use pstr_takes pstr_cut in blast)+

section \<open>Numbers and words\<close>

lemma digits_cut:
  assumes "dropWhile isDigit (s @ r) = t @ r"
  shows "takeWhile isDigit (s @ r) = takeWhile isDigit s \<and> dropWhile isDigit s = t"
proof -
  have "dropWhile isDigit (s @ r) = dropWhile isDigit s @ r"
  proof (cases "\<forall>c\<in>set s. isDigit c")
    case True
    then have "dropWhile isDigit (s @ r) = dropWhile isDigit r" "dropWhile isDigit s = []"
      by (simp_all add: dropWhile_append)
    with assms show ?thesis
      by (metis append_Nil length_append le_add2 length_dropWhile_le suffix_dropWhile suffix_length_suffix
          suffix_order.eq_iff le_antisym append_eq_append_conv)
  next
    case False
    then show ?thesis by (auto simp add: dropWhile_append)
  qed
  moreover from this have "takeWhile isDigit (s @ r) = takeWhile isDigit s"
    by (metis append.assoc append_same_eq takeWhile_dropWhile_id)
  ultimately show ?thesis using assms by simp
qed

lemma pint_cut:
  assumes "pint (s @ r) = Some (i, t @ r)"
  shows "pint s = Some (i, t)"
proof (cases s)
  case Nil
  with pint_append [OF assms] have "length (i @ t) = 0" "i \<noteq> []" by auto
  then show ?thesis by simp
next
  case (Cons c s')
  with assms digits_cut [of s' r t] show ?thesis by (auto split: if_splits)
qed

lemma pfrac_cut:
  assumes "pfrac (s @ r) = Some (f, t @ r)"
  shows "pfrac s = Some (f, t)"
proof (cases s)
  case Nil
  with pfrac_append [OF assms] assms show ?thesis by simp
next
  case (Cons c s')
  with assms digits_cut [of s' r t] show ?thesis by (auto split: if_splits)
qed

lemma psign_cut:
  assumes "psign (s @ r) = (g, t @ r)"
  shows "psign s = (g, t)"
proof (cases s)
  case Nil
  with psign_append [OF assms] assms show ?thesis by simp
next
  case (Cons c s')
  with assms show ?thesis by (auto split: if_splits)
qed

lemma pexp_cut:
  assumes "pexp (s @ r) = Some (e, t @ r)"
  shows "pexp s = Some (e, t)"
proof (cases s)
  case Nil
  with pexp_append [OF assms] assms show ?thesis by simp
next
  case (Cons c s')
  show ?thesis
  proof (cases "c = CHR ''e'' \<or> c = CHR ''E''")
    case True
    obtain g u where g: "psign (s' @ r) = (g, u)" by (cases "psign (s' @ r)")
    with assms True have u: "takeWhile isDigit u \<noteq> []" "e = c # g @ takeWhile isDigit u"
        "dropWhile isDigit u = t @ r"
      by (auto simp add: Cons split: if_splits)
    have "length r \<le> length (dropWhile isDigit u)" by (simp add: u(3))
    also have "\<dots> \<le> length u" by (rule length_dropWhile_le)
    finally obtain z where z: "u = z @ r"
      using psign_append [OF g] suffix_split [of g u s' r] by metis
    have "psign s' = (g, z)" using g unfolding z by (rule psign_cut)
    moreover have "takeWhile isDigit z \<noteq> []" "e = c # g @ takeWhile isDigit z" "dropWhile isDigit z = t"
      using digits_cut [of z r t] u unfolding z by simp_all
    ultimately show ?thesis using True by (simp add: Cons)
  qed (use assms in \<open>auto simp add: Cons\<close>)
qed

lemma pnum_cut:
  assumes "pnum (s @ r) = Some (n, t @ r)"
  shows "pnum s = Some (n, t)"
proof -
  from assms obtain i a f b e where parts: "pint (snd (pminus (s @ r))) = Some (i, a)"
    "pfrac a = Some (f, b)" "pexp b = Some (e, t @ r)" "n = fst (pminus (s @ r)) @ i @ f @ e"
    by (auto simp add: pnum_eq)
  obtain b' where b: "b = b' @ r" using pexp_append [OF parts(3)] by simp
  then obtain a' where a: "a = a' @ r" using pfrac_append [OF parts(2)] by simp
  have "s \<noteq> []"
  proof
    assume "s = []"
    then have "snd (pminus r) = i @ a' @ r" "i \<noteq> []" using pint_append [OF parts(1)] a by auto
    moreover have "length (snd (pminus r)) \<le> length r" by (cases r) simp_all
    ultimately show False by simp
  qed
  then obtain c s' where s: "s = c # s'" by (cases s) auto
  have m: "pminus (s @ r) = (fst (pminus s), snd (pminus s) @ r)" by (simp add: s)
  have "pint (snd (pminus s) @ r) = Some (i, a' @ r)" using parts(1) by (simp add: m a)
  then have "pint (snd (pminus s)) = Some (i, a')" by (rule pint_cut)
  moreover have "pfrac a' = Some (f, b')" using parts(2) unfolding a b by (rule pfrac_cut)
  moreover have "pexp b' = Some (e, t)" using parts(3) unfolding b by (rule pexp_cut)
  ultimately show ?thesis using parts(4) by (auto simp add: pnum_eq m)
qed

interpretation pnum: local_parser pnum
  using pnum_append pnum_cut by unfold_locales blast+

lemma pword_takes: "pword w v s = Some (x, r) \<Longrightarrow> s = w @ r \<and> x = v"
  by (induction w v s rule: pword.induct) (auto split: if_splits)

lemma pword_cut: "pword w v (s @ r) = Some (x, t @ r) \<Longrightarrow> pword w v s = Some (x, t)"
proof -
  assume "pword w v (s @ r) = Some (x, t @ r)"
  from pword_takes [OF this] have "s = w @ t" "x = v" by (metis append_assoc append_same_eq)+
  then show ?thesis by (induction w arbitrary: s) auto
qed

lemma pscalar_cases:
  assumes "pscalar (c # s) = Some (v, r)"
  shows "(\<exists>y. pstr s = Some (y, r)) \<or> (\<exists>w x. pword w (x :: json) s = Some (v, r)) \<or>
    (\<exists>n. pnum (c # s) = Some (n, r))"
  using assms unfolding pscalar_def by (simp split: if_splits) auto

lemma pscalar_takes:
  assumes "pscalar s = Some (v, r)"
  shows "\<exists>u. s = u @ r \<and> u \<noteq> []"
proof (cases s)
  case (Cons c s')
  from assms have "\<exists>u. s = u @ r"
    unfolding Cons using pscalar_cases [of c s' v r] pstr_takes [of s' _ r] pword_takes [of _ _ s' v r]
      pnum_append [of "c # s'" _ r]
    by (metis append_Cons)
  then obtain u where u: "s = u @ r" by blast
  with pscalar_consumes [OF assms] have "u \<noteq> []" by auto
  with u show ?thesis by blast
qed (use assms in \<open>simp add: pscalar_def\<close>)

lemma pscalar_cut:
  assumes "pscalar (s @ r) = Some (v, t @ r)"
  shows "pscalar s = Some (v, t)"
proof (cases s)
  case Nil
  with pscalar_consumes [OF assms] show ?thesis by simp
next
  case (Cons c s')
  have num: "pnum (c # s' @ r) = Some (n, t @ r) \<Longrightarrow> pnum (c # s') = Some (n, t)" for n
    using pnum_cut [of "c # s'" r n t] by simp
  note cuts = pword_cut [of _ _ s' r v t] pstr_cut [of s' r _ t] num
  from assms show ?thesis
    unfolding Cons pscalar_def by (auto split: if_splits dest: cuts)
qed

interpretation pscalar: local_parser pscalar
  by unfold_locales (use pscalar_takes pscalar_cut in blast)+

section \<open>Containers\<close>

lemma skip_ws_takes: "\<exists>u. s = u @ skip_ws s"
  by (metis skip_ws_def takeWhile_dropWhile_id)

lemma length_skip_ws: "length (skip_ws s) \<le> length s"
  by (simp add: skip_ws_def length_dropWhile_le)

lemma pkey_eq:
  "pkey s = Some (k, t) \<longleftrightarrow>
     (\<exists>u w. skip_ws s = CHR ''\"'' # u \<and> pstr u = Some (k, w) \<and> skip_ws w = CHR '':'' # t)"
  by (auto simp add: pkey_def split: list.split option.split)

lemma pkey_takes:
  assumes "pkey s = Some (k, t)"
  shows "\<exists>u. s = u @ t \<and> u \<noteq> []"
proof -
  from assms obtain u w where u: "skip_ws s = CHR ''\"'' # u" "pstr u = Some (k, w)" "skip_ws w = CHR '':'' # t"
    by (auto simp add: pkey_eq)
  from u(1) obtain a where a: "s = a @ CHR ''\"'' # u" using skip_ws_takes [of s] by auto
  from u(3) obtain d where d: "w = d @ CHR '':'' # t" using skip_ws_takes [of w] by auto
  from u(2) obtain b where "u = b @ w" using pstr_takes by blast
  with a d have "s = (a @ CHR ''\"'' # b @ d @ [CHR '':'']) @ t" by simp
  then show ?thesis by blast
qed

lemma pkey_cut:
  assumes "pkey (s @ r) = Some (k, t @ r)"
  shows "pkey s = Some (k, t)"
proof -
  from assms obtain u w where u: "skip_ws (s @ r) = CHR ''\"'' # u" "pstr u = Some (k, w)"
    "skip_ws w = CHR '':'' # t @ r"
    by (auto simp add: pkey_eq)
  have w: "length r \<le> length w" using u(3) length_skip_ws [of w] by simp
  also have "length w \<le> length u" using pstr_length [OF u(2)] by simp
  finally obtain u' where u': "u = u' @ r" "skip_ws s = CHR ''\"'' # u'" using u(1) ws_cut by metis
  obtain w' where w': "w = w' @ r" "pstr u' = Some (k, w')"
    using u(2) w unfolding u'(1) by (rule pstr.cut_to)
  have "skip_ws w' = CHR '':'' # t"
  proof (rule ws_cut [of w' r "CHR '':''" "t @ r"])
    show "skip_ws (w' @ r) = CHR '':'' # t @ r" using u(3) w'(1) by simp
  qed simp_all
  with u' w' show ?thesis by (auto simp add: pkey_eq)
qed

interpretation pkey: local_parser pkey
  by unfold_locales (use pkey_takes pkey_cut in blast)+

locale local_value = local_parser pv for pv :: parser

sublocale local_value \<subseteq> value_parser pv
  by unfold_locales (rule shorter)

context local_value
begin

text \<open>One step of the element loop: a value, white space and the separator.\<close>

lemma step_cut:
  assumes "pv (skip_ws (s @ r)) = Some (v, u)" "skip_ws u = c # w" "length r \<le> length w"
  obtains u' w' where "pv (skip_ws s) = Some (v, u')" "skip_ws u' = c # w'" "w = w' @ r"
    "raw_text (skip_ws (s @ r)) u = raw_text (skip_ws s) u'"
proof -
  have "length w < length u" using assms(2) length_skip_ws [of u] by simp
  then have len: "length r \<le> length u" using assms(3) by simp
  moreover have "length u < length (skip_ws (s @ r))" by (rule shorter [OF assms(1)])
  ultimately have ws: "skip_ws (s @ r) = skip_ws s @ r" by (intro skip_ws_cut) simp
  then have "pv (skip_ws s @ r) = Some (v, u)" using assms(1) by simp
  then obtain u' where u': "u = u' @ r" "pv (skip_ws s) = Some (v, u')" using len by (rule cut_to)
  then have "skip_ws (u' @ r) = c # w" using assms(2) by simp
  then obtain w' where w': "w = w' @ r" "skip_ws u' = c # w'" using assms(3) by (rule ws_cut)
  have "raw_text (skip_ws (s @ r)) u = raw_text (skip_ws s) u'"
    unfolding ws u'(1) by (rule raw_text_cut) (use shorter [OF u'(2)] in simp)
  with that u'(2) w' show thesis by blast
qed

lemma elems_cut: "elems n pv (s @ r) = Some (vs, t @ r) \<Longrightarrow> elems n pv s = Some (vs, t)"
proof (induction n arbitrary: s vs)
  case (Suc n)
  then obtain v u c w where v: "pv (skip_ws (s @ r)) = Some (v, u)" "skip_ws u = c # w"
    and w: "c = CHR '','' \<and> (\<exists>ws. elems n pv w = Some (ws, t @ r) \<and>
          vs = (raw_text (skip_ws (s @ r)) u, v) # ws) \<or>
        c = CHR '']'' \<and> w = t @ r \<and> vs = [(raw_text (skip_ws (s @ r)) u, v)]"
    by (auto simp add: Let_def split: option.splits list.splits if_splits)
  from w have "length r \<le> length w" using elems_consumes [of n w _ "t @ r"] by force
  from step_cut [OF v this] obtain u' w' where
    u': "pv (skip_ws s) = Some (v, u')" "skip_ws u' = c # w'" "w = w' @ r"
      "raw_text (skip_ws (s @ r)) u = raw_text (skip_ws s) u'" .
  from w show ?case
  proof (elim disjE conjE exE)
    fix ws
    assume ws: "c = CHR '',''" "elems n pv w = Some (ws, t @ r)"
      "vs = (raw_text (skip_ws (s @ r)) u, v) # ws"
    then have "elems n pv w' = Some (ws, t)" using Suc.IH u'(3) by simp
    with u' ws show ?thesis by (simp add: Let_def)
  qed (use u' in \<open>simp add: Let_def\<close>)
qed simp

lemma members_cut: "members n pv (s @ r) = Some (ms, t @ r) \<Longrightarrow> members n pv s = Some (ms, t)"
proof (induction n arbitrary: s ms)
  case (Suc n)
  then obtain k x v u c w where k: "pkey (s @ r) = Some (k, x)"
    and v: "pv (skip_ws x) = Some (v, u)" "skip_ws u = c # w"
    and w: "c = CHR '','' \<and> (\<exists>ws. members n pv w = Some (ws, t @ r) \<and>
          ms = (k, raw_text (skip_ws x) u, v) # ws) \<or>
        c = CHR ''}'' \<and> w = t @ r \<and> ms = [(k, raw_text (skip_ws x) u, v)]"
    by (auto simp add: Let_def split: option.splits list.splits if_splits)
  from w have len: "length r \<le> length w" using members_consumes [of n w _ "t @ r"] by force
  also have "length w < length u" using v(2) length_skip_ws [of u] by simp
  also have "\<dots> < length (skip_ws x)" by (rule shorter [OF v(1)])
  also have "\<dots> \<le> length x" by (rule length_skip_ws)
  finally have "length r \<le> length x" by simp
  with k obtain x' where x': "x = x' @ r" "pkey s = Some (k, x')" by (rule pkey.cut_to)
  note v' = v [unfolded x'(1)]
  from step_cut [OF v' len] obtain u' w' where
    u': "pv (skip_ws x') = Some (v, u')" "skip_ws u' = c # w'" "w = w' @ r"
      "raw_text (skip_ws x) u = raw_text (skip_ws x') u'"
    unfolding x'(1) .
  from w show ?case
  proof (elim disjE conjE exE)
    fix ws
    assume ws: "c = CHR '',''" "members n pv w = Some (ws, t @ r)"
      "ms = (k, raw_text (skip_ws x) u, v) # ws"
    then have "members n pv w' = Some (ws, t)" using Suc.IH u'(3) by simp
    with x' u' ws show ?thesis by (simp add: Let_def)
  qed (use x' u' in \<open>simp add: Let_def\<close>)
qed simp

lemma parray_cut:
  assumes "parray pv (s @ r) = Some (v, t @ r)"
  shows "parray pv s = Some (v, t)"
proof -
  from assms obtain c u where u: "skip_ws (s @ r) = c # u"
    and v: "c = CHR '']'' \<and> v = JArr [] \<and> u = t @ r \<or> c \<noteq> CHR '']'' \<and>
      (\<exists>vs. elems (Suc (length (s @ r))) pv (c # u) = Some (vs, t @ r) \<and> v = JArr vs)"
    by (auto simp add: parray_def simp del: elems.simps split: list.splits if_splits)
  from v have "length r \<le> length u" by (auto simp del: elems.simps dest: elems_consumes)
  with u obtain u' where u': "u = u' @ r" "skip_ws s = c # u'" by (rule ws_cut)
  have "length (c # u') \<le> length s" using length_skip_ws [of s] u'(2) by simp
  then have "elems (Suc (length (s @ r))) pv (c # u') = elems (Suc (length s)) pv (c # u')"
    by (intro elems_fuel) simp_all
  with v u' elems_cut [of "Suc (length (s @ r))" "c # u'" r _ t] show ?thesis
    by (auto simp add: parray_def simp del: elems.simps)
qed

lemma pobject_cut:
  assumes "pobject pv (s @ r) = Some (v, t @ r)"
  shows "pobject pv s = Some (v, t)"
proof -
  from assms obtain c u where u: "skip_ws (s @ r) = c # u"
    and v: "c = CHR ''}'' \<and> v = JObj [] \<and> u = t @ r \<or> c \<noteq> CHR ''}'' \<and>
      (\<exists>vs. members (Suc (length (s @ r))) pv (c # u) = Some (vs, t @ r) \<and> v = JObj vs)"
    by (auto simp add: pobject_def simp del: members.simps split: list.splits if_splits)
  from v have "length r \<le> length u" by (auto simp del: members.simps dest: members_consumes)
  with u obtain u' where u': "u = u' @ r" "skip_ws s = c # u'" by (rule ws_cut)
  have "length (c # u') \<le> length s" using length_skip_ws [of s] u'(2) by simp
  then have "members (Suc (length (s @ r))) pv (c # u') = members (Suc (length s)) pv (c # u')"
    by (intro members_fuel) simp_all
  with v u' members_cut [of "Suc (length (s @ r))" "c # u'" r _ t] show ?thesis
    by (auto simp add: pobject_def simp del: members.simps)
qed

text \<open>What the containers take, and the elements they keep.\<close>

lemma ws_takes: "skip_ws s = c # u \<Longrightarrow> \<exists>a. s = a @ u"
  using skip_ws_takes [of s] by (metis append.assoc append_Cons append_Nil)

lemma elems_takes: "elems n pv s = Some (vs, t) \<Longrightarrow> \<exists>u. s = u @ t"
proof (induction n arbitrary: s vs)
  case (Suc n)
  then obtain v u c w where v: "pv (skip_ws s) = Some (v, u)" "skip_ws u = c # w"
    and w: "w = t \<or> (\<exists>ws. elems n pv w = Some (ws, t))"
    by (auto simp add: Let_def split: option.splits list.splits if_splits)
  obtain a b e where "s = a @ skip_ws s" "skip_ws s = b @ u" "u = e @ w"
    using skip_ws_takes takes [OF v(1)] ws_takes [OF v(2)] by metis
  then have "s = (a @ b @ e) @ w" by simp
  moreover have "\<exists>x. w = x @ t" using w Suc.IH by blast
  ultimately show ?case by (metis append.assoc)
qed simp

lemma members_takes: "members n pv s = Some (ms, t) \<Longrightarrow> \<exists>u. s = u @ t"
proof (induction n arbitrary: s ms)
  case (Suc n)
  then obtain k x v u c w where k: "pkey s = Some (k, x)" and v: "pv (skip_ws x) = Some (v, u)"
      "skip_ws u = c # w" and w: "w = t \<or> (\<exists>ws. members n pv w = Some (ws, t))"
    by (auto simp add: Let_def split: option.splits list.splits if_splits)
  obtain a b e f where "s = a @ x" "x = b @ skip_ws x" "skip_ws x = e @ u" "u = f @ w"
    using pkey_takes [OF k] skip_ws_takes takes [OF v(1)] ws_takes [OF v(2)] by metis
  then have "s = (a @ b @ e @ f) @ w" by simp
  moreover have "\<exists>x. w = x @ t" using w Suc.IH by blast
  ultimately show ?case by (metis append.assoc)
qed simp

lemma parray_takes:
  assumes "parray pv s = Some (v, t)"
  shows "\<exists>u. s = u @ t"
proof -
  from assms obtain c u where u: "skip_ws s = c # u"
    and t: "u = t \<or> (\<exists>vs. elems (Suc (length s)) pv (c # u) = Some (vs, t))"
    by (auto simp add: parray_def simp del: elems.simps split: list.splits if_splits)
  from t have "\<exists>x. c # u = x @ t" using elems_takes by (metis append_Cons append_Nil)
  then show ?thesis using skip_ws_takes [of s] u by (metis append.assoc)
qed

lemma pobject_takes:
  assumes "pobject pv s = Some (v, t)"
  shows "\<exists>u. s = u @ t"
proof -
  from assms obtain c u where u: "skip_ws s = c # u"
    and t: "u = t \<or> (\<exists>vs. members (Suc (length s)) pv (c # u) = Some (vs, t))"
    by (auto simp add: pobject_def simp del: members.simps split: list.splits if_splits)
  from t have "\<exists>x. c # u = x @ t" using members_takes by (metis append_Cons append_Nil)
  then show ?thesis using skip_ws_takes [of s] u by (metis append.assoc)
qed

text \<open>The text kept for an element is shorter than the input and parses to the element's tree.\<close>

definition kept :: "string \<Rightarrow> string \<times> json \<Rightarrow> bool" where
  "kept s rv \<longleftrightarrow> pv (fst rv) = Some (snd rv, []) \<and> length (fst rv) \<le> length s \<and>
     skip_ws (fst rv) = fst rv"

lemma kept_step:
  assumes "pv (skip_ws s) = Some (v, u)" "length s \<le> length s'"
  shows "kept s' (raw_text (skip_ws s) u, v)"
proof -
  obtain a where a: "skip_ws s = a @ u" "a \<noteq> []" using takes [OF assms(1)] by blast
  then have "raw_text (skip_ws s) u = a" by (simp add: raw_text_def)
  moreover have "length a \<le> length s'" using arg_cong [OF a(1), of length] length_skip_ws [of s] assms(2) by simp
  moreover have "\<not> is_space (hd a)"
    using a hd_dropWhile [of is_space s] by (auto simp add: skip_ws_def)
  then have "skip_ws a = a" using a(2) by (cases a) (simp_all add: skip_ws_def)
  ultimately show ?thesis
    using raw_text_parses [OF assms(1)] by (simp add: kept_def)
qed

lemma kept_longer: "kept s rv \<Longrightarrow> length s \<le> length s' \<Longrightarrow> kept s' rv"
  by (simp add: kept_def)

lemma elems_kept: "elems n pv s = Some (vs, t) \<Longrightarrow> list_all (kept s) vs"
proof (induction n arbitrary: s vs)
  case (Suc n)
  then obtain v u c w where v: "pv (skip_ws s) = Some (v, u)" "skip_ws u = c # w"
    and w: "vs = [(raw_text (skip_ws s) u, v)] \<or>
      (\<exists>ws. elems n pv w = Some (ws, t) \<and> vs = (raw_text (skip_ws s) u, v) # ws)"
    by (auto simp add: Let_def split: option.splits list.splits if_splits)
  have "length w < length u" using v(2) length_skip_ws [of u] by simp
  then have "length w \<le> length s" using shorter [OF v(1)] length_skip_ws [of s] by simp
  then have "list_all (kept s) ws" if "elems n pv w = Some (ws, t)" for ws
    using Suc.IH [OF that] kept_longer by (auto simp add: list_all_iff)
  with w kept_step [OF v(1) order_refl] show ?case by auto
qed simp

lemma members_kept: "members n pv s = Some (ms, t) \<Longrightarrow> list_all (\<lambda>m. kept s (snd m)) ms"
proof (induction n arbitrary: s ms)
  case (Suc n)
  then obtain k x v u c w where k: "pkey s = Some (k, x)" and v: "pv (skip_ws x) = Some (v, u)"
      "skip_ws u = c # w"
    and w: "ms = [(k, raw_text (skip_ws x) u, v)] \<or>
      (\<exists>ws. members n pv w = Some (ws, t) \<and> ms = (k, raw_text (skip_ws x) u, v) # ws)"
    by (auto simp add: Let_def split: option.splits list.splits if_splits)
  have x: "length x \<le> length s" using pkey.shorter [OF k] by simp
  have "length w < length u" using v(2) length_skip_ws [of u] by simp
  then have "length w \<le> length s" using shorter [OF v(1)] length_skip_ws [of x] x by simp
  then have "list_all (\<lambda>m. kept s (snd m)) ws" if "members n pv w = Some (ws, t)" for ws
    using Suc.IH [OF that] kept_longer by (auto simp add: list_all_iff)
  with w kept_step [OF v(1) x] show ?case by auto
qed simp

end

context local_value
begin

text \<open>The last character of a container.\<close>

lemma ws_ends: "skip_ws s = c # u \<Longrightarrow> \<exists>a. s = a @ c # u"
  using skip_ws_takes [of s] by metis

lemma elems_ends: "elems n pv s = Some (vs, t) \<Longrightarrow> \<exists>u. s = u @ CHR '']'' # t"
proof (induction n arbitrary: s vs)
  case (Suc n)
  then obtain v u c w where v: "pv (skip_ws s) = Some (v, u)" "skip_ws u = c # w"
    and w: "c = CHR '']'' \<and> w = t \<or> (\<exists>ws. elems n pv w = Some (ws, t))"
    by (auto simp add: Let_def split: option.splits list.splits if_splits)
  obtain a b e where abe: "s = a @ skip_ws s" "skip_ws s = b @ u" "u = e @ c # w"
    using skip_ws_takes takes [OF v(1)] ws_ends [OF v(2)] by metis
  then have "s = (a @ b @ e) @ c # w" by simp
  moreover have "c = CHR '']'' \<and> w = t \<or> (\<exists>x. w = x @ CHR '']'' # t)" using w Suc.IH by blast
  ultimately show ?case by (metis append.assoc append_Cons)
qed simp

lemma members_ends: "members n pv s = Some (ms, t) \<Longrightarrow> \<exists>u. s = u @ CHR ''}'' # t"
proof (induction n arbitrary: s ms)
  case (Suc n)
  then obtain k x v u c w where k: "pkey s = Some (k, x)" and v: "pv (skip_ws x) = Some (v, u)"
      "skip_ws u = c # w"
    and w: "c = CHR ''}'' \<and> w = t \<or> (\<exists>ws. members n pv w = Some (ws, t))"
    by (auto simp add: Let_def split: option.splits list.splits if_splits)
  obtain a b e f where "s = a @ x" "x = b @ skip_ws x" "skip_ws x = e @ u" "u = f @ c # w"
    using pkey_takes [OF k] skip_ws_takes takes [OF v(1)] ws_ends [OF v(2)] by metis
  then have "s = (a @ b @ e @ f) @ c # w" by simp
  moreover have "c = CHR ''}'' \<and> w = t \<or> (\<exists>x. w = x @ CHR ''}'' # t)" using w Suc.IH by blast
  ultimately show ?case by (metis append.assoc append_Cons)
qed simp

lemma parray_ends:
  assumes "parray pv s = Some (v, t)"
  shows "\<exists>u. s = u @ CHR '']'' # t"
proof -
  from assms obtain c u where u: "skip_ws s = c # u"
    and t: "c = CHR '']'' \<and> u = t \<or> (\<exists>vs. elems (Suc (length s)) pv (c # u) = Some (vs, t))"
    by (auto simp add: parray_def simp del: elems.simps split: list.splits if_splits)
  from t have "\<exists>x. c # u = x @ CHR '']'' # t" using elems_ends by (metis append_Nil)
  then show ?thesis using skip_ws_takes [of s] u by (metis append.assoc)
qed

lemma pobject_ends:
  assumes "pobject pv s = Some (v, t)"
  shows "\<exists>u. s = u @ CHR ''}'' # t"
proof -
  from assms obtain c u where u: "skip_ws s = c # u"
    and t: "c = CHR ''}'' \<and> u = t \<or> (\<exists>vs. members (Suc (length s)) pv (c # u) = Some (vs, t))"
    by (auto simp add: pobject_def simp del: members.simps split: list.splits if_splits)
  from t have "\<exists>x. c # u = x @ CHR ''}'' # t" using members_ends by (metis append_Nil)
  then show ?thesis using skip_ws_takes [of s] u by (metis append.assoc)
qed

end

section \<open>Values\<close>

lemma pcontainer_takes:
  assumes "\<And>pv. pvo = Some pv \<Longrightarrow> local_value pv" "pcontainer pvo s = Some (v, r)"
  shows "\<exists>u. s = u @ r \<and> u \<noteq> []"
proof (cases s)
  case (Cons c s')
  show ?thesis
  proof (cases "c = CHR ''['' \<or> c = CHR ''{''")
    case True
    then obtain pv where "pvo = Some pv" "parray pv s' = Some (v, r) \<or> pobject pv s' = Some (v, r)"
      using assms(2) by (cases pvo) (auto simp add: Cons split: if_splits)
    with assms(1) obtain u where "s' = u @ r"
      using local_value.parray_takes local_value.pobject_takes by metis
    then show ?thesis by (simp add: Cons)
  next
    case False
    then have "pscalar s = Some (v, r)" using assms(2) by (simp add: Cons)
    then show ?thesis by (rule pscalar_takes)
  qed
qed (use assms(2) in simp)

lemma pcontainer_cut:
  assumes "\<And>pv. pvo = Some pv \<Longrightarrow> local_value pv" "pcontainer pvo (s @ r) = Some (v, t @ r)"
  shows "pcontainer pvo s = Some (v, t)"
proof (cases s)
  case Nil
  then show ?thesis using pcontainer_takes [OF assms] by auto
next
  case (Cons c s')
  show ?thesis
  proof (cases "c = CHR ''['' \<or> c = CHR ''{''")
    case True
    then obtain pv where pv: "pvo = Some pv"
      using assms(2) by (cases pvo) (auto simp add: Cons split: if_splits)
    then have L: "local_value pv" by (rule assms(1))
    from assms(2) pv True show ?thesis
      using local_value.parray_cut [OF L, of s' r v t] local_value.pobject_cut [OF L, of s' r v t]
      by (auto simp add: Cons)
  next
    case False
    then have "pscalar ((c # s') @ r) = Some (v, t @ r)" using assms(2) by (simp add: Cons)
    then have "pscalar (c # s') = Some (v, t)" by (rule pscalar_cut)
    with False show ?thesis by (simp add: Cons)
  qed
qed

lemma pval_local: "local_value (pval d)"
proof (induction d)
  case 0
  have "local_value (pcontainer None)"
    by unfold_locales
      (use pcontainer_takes [of None] in blast, use pcontainer_cut [of None] in blast)
  then show ?case by (simp only: pval.simps)
next
  case (Suc d)
  then have "local_value (pcontainer (Some (pval d)))"
    by unfold_locales
      (use pcontainer_takes [of "Some (pval d)"] in blast, use pcontainer_cut [of "Some (pval d)"] in blast)
  then show ?case by (simp only: pval.simps)
qed

interpretation located: local_value "pval d"
  by (rule pval_local)

text \<open>A parser that succeeds with fewer containers to open does with more.\<close>

lemma elems_mono:
  assumes "\<And>s v r. pv s = Some (v, r) \<Longrightarrow> pv' s = Some (v, r)"
  shows "elems n pv s = Some (vs, t) \<Longrightarrow> elems n pv' s = Some (vs, t)"
proof (induction n arbitrary: s vs)
  case (Suc n)
  then show ?case
    by (auto simp add: Let_def dest!: assms split: option.splits list.splits if_splits)
qed simp

lemma members_mono:
  assumes "\<And>s v r. pv s = Some (v, r) \<Longrightarrow> pv' s = Some (v, r)"
  shows "members n pv s = Some (ms, t) \<Longrightarrow> members n pv' s = Some (ms, t)"
proof (induction n arbitrary: s ms)
  case (Suc n)
  then show ?case
    by (auto simp add: Let_def dest!: assms split: option.splits list.splits if_splits)
qed simp

lemma pcontainer_mono:
  assumes "\<And>pv. pvo = Some pv \<Longrightarrow> (\<And>s v r. pv s = Some (v, r) \<Longrightarrow> pv' s = Some (v, r))"
    and "pcontainer pvo s = Some (v, r)"
  shows "pcontainer (Some pv') s = Some (v, r)"
proof (cases pvo)
  case None
  with assms(2) show ?thesis by (cases s) (auto split: if_splits)
next
  case (Some pv)
  note mono = assms(1) [OF Some]
  show ?thesis
    using assms(2) elems_mono [of pv pv', OF mono] members_mono [of pv pv', OF mono]
    by (cases s)
       (auto simp add: Some parray_def pobject_def simp del: elems.simps members.simps
         split: if_splits list.splits)
qed

lemma pval_Suc: "pval d s = Some (v, r) \<Longrightarrow> pval (Suc d) s = Some (v, r)"
proof (induction d arbitrary: s v r)
  case 0
  show ?case
    unfolding pval.simps(2)
    by (rule pcontainer_mono [of None]) (use 0 in \<open>simp_all only: pval.simps option.distinct\<close>)
next
  case (Suc d)
  show ?case
    unfolding pval.simps(2) [of "Suc d"]
    by (rule pcontainer_mono [of "Some (pval d)"])
       (use Suc.IH Suc.prems in \<open>simp_all only: pval.simps(2) option.inject\<close>)
qed

lemma pval_mono: "d \<le> e \<Longrightarrow> pval d s = Some (v, r) \<Longrightarrow> pval e s = Some (v, r)"
  by (induction rule: dec_induct) (simp, blast intro: pval_Suc)

section \<open>The pieces of a document\<close>

text \<open>A value starts and ends with a printing ASCII character, so no trimming touches it.\<close>

definition graphic :: "char \<Rightarrow> bool" where
  "graphic c \<longleftrightarrow> 33 \<le> ord_of c \<and> ord_of c \<le> 126"

definition solid :: "string \<Rightarrow> bool" where
  "solid s \<longleftrightarrow> s \<noteq> [] \<and> graphic (hd s) \<and> graphic (last s)"

lemma solid_between: "graphic c \<Longrightarrow> graphic d \<Longrightarrow> solid (c # u @ [d])"
  by (simp add: solid_def)

lemma digit_graphic: "isDigit c \<Longrightarrow> graphic c"
  by (simp add: isDigit_def graphic_def)

lemma takeWhile_digit_last: "takeWhile isDigit s \<noteq> [] \<Longrightarrow> isDigit (last (takeWhile isDigit s))"
  using last_in_set set_takeWhileD by metis

lemma pint_last: "pint s = Some (i, t) \<Longrightarrow> i \<noteq> [] \<and> isDigit (hd i) \<and> isDigit (last i)"
  by (cases s) (auto simp add: isDigit_def [of "CHR ''0''"] takeWhile_digit_last split: if_splits)

lemma pfrac_last: "pfrac s = Some (f, t) \<Longrightarrow> f \<noteq> [] \<Longrightarrow> isDigit (last f)"
  by (cases s) (auto simp add: takeWhile_digit_last split: if_splits)

lemma pexp_last: "pexp s = Some (e, t) \<Longrightarrow> e \<noteq> [] \<Longrightarrow> isDigit (last e)"
  by (cases s) (auto simp add: takeWhile_digit_last last_append split: if_splits prod.splits)

lemma pnum_solid:
  assumes "pnum s = Some (n, t)"
  shows "solid n"
proof -
  from assms obtain i a f b e where parts: "pint (snd (pminus s)) = Some (i, a)" "pfrac a = Some (f, b)"
    "pexp b = Some (e, t)" "n = fst (pminus s) @ i @ f @ e"
    by (auto simp add: pnum_eq)
  note last = pint_last [OF parts(1)] pfrac_last [OF parts(2)] pexp_last [OF parts(3)]
  have "isDigit (last n)" using last by (auto simp add: parts(4) last_append)
  moreover have "hd n = CHR ''-'' \<or> isDigit (hd n)"
    using last(1) by (cases s) (auto simp add: parts(4) hd_append)
  moreover have "n \<noteq> []" using last(1) by (simp add: parts(4))
  ultimately show ?thesis by (auto simp add: solid_def digit_graphic graphic_def [of "CHR ''-''"])
qed

lemma pstr_ends: "pstr s = Some (u, t) \<Longrightarrow> \<exists>a. s = a @ CHR ''\"'' # t"
proof (induction "length s" arbitrary: s u rule: less_induct)
  case less
  from less.prems show ?case
  proof (rule pstr_cases)
    fix d w x
    assume w: "str_step s = Some (d, w)" "pstr w = Some (x, t)"
    then obtain a b where "s = a @ w" "w = b @ CHR ''\"'' # t"
      using str_step_takes [OF w(1)] less.hyps [OF str_step_length [OF w(1)] w(2)] by blast
    then show ?thesis by (metis append.assoc)
  qed auto
qed

lemma pscalar_solid:
  assumes "pscalar s = Some (v, [])"
  shows "solid s"
proof (cases s)
  case (Cons c s')
  consider "c = CHR ''\"''" "\<exists>u. pstr s' = Some (u, [])"
    | "graphic c" "s' \<in> {''rue'', ''alse'', ''ull''}"
    | "\<exists>n. pnum s = Some (n, [])"
    using assms unfolding pscalar_def
    by (auto simp add: Cons graphic_def split: if_splits dest!: pword_takes)
  then show ?thesis
  proof cases
    case 1
    then obtain a where "s' = a @ [CHR ''\"'']" using pstr_ends by blast
    then show ?thesis using solid_between [of c "CHR ''\"''" a] 1(1) by (simp add: Cons graphic_def)
  next
    case 2
    then show ?thesis by (auto simp add: Cons solid_def graphic_def)
  next
    case 3
    then show ?thesis using pnum_solid pnum_append by fastforce
  qed
qed (use assms in \<open>simp add: pscalar_def\<close>)

lemma pval_solid:
  assumes "pval d s = Some (v, [])"
  shows "solid s"
proof -
  obtain c s' where s: "s = c # s'" using located.takes [OF assms] by (cases s) auto
  obtain pvo where pvo: "pval d = pcontainer pvo" "\<And>pv. pvo = Some pv \<Longrightarrow> local_value pv"
    using pval_local by (cases d) (metis option.distinct(1) pval.simps(1), metis option.inject pval.simps(2))
  show ?thesis
  proof (cases "c = CHR ''['' \<or> c = CHR ''{''")
    case True
    then obtain pv where pv: "pvo = Some pv" "parray pv s' = Some (v, []) \<or> pobject pv s' = Some (v, [])"
      using assms pvo(1) by (cases pvo) (auto simp add: s split: if_splits)
    then have "(\<exists>u. s' = u @ [CHR '']'']) \<or> (\<exists>u. s' = u @ [CHR ''}''])"
      using pvo(2) local_value.parray_ends local_value.pobject_ends by blast
    with True show ?thesis using solid_between by (auto simp add: s graphic_def)
  next
    case False
    then have "pscalar s = Some (v, [])" using assms pvo(1) by (simp add: s)
    then show ?thesis by (rule pscalar_solid)
  qed
qed

lemma solid_skip_ws: "solid s \<Longrightarrow> skip_ws s = s"
  by (cases s) (auto simp add: solid_def graphic_def skip_ws_def is_space_def)

text \<open>Every piece kept of a document is a shorter document of its own, with the tree of the piece.\<close>

definition piece :: "string \<Rightarrow> string \<times> json \<Rightarrow> bool" where
  "piece s rv \<longleftrightarrow> parse_json (fst rv) = Some (snd rv) \<and> length (fst rv) < length s \<and> solid (fst rv)"

lemma kept_piece:
  assumes "local_value.kept (pval d) u rv" "length u < length s" "d \<le> maxNestingDepth"
  shows "piece s rv"
proof -
  have k: "pval d (fst rv) = Some (snd rv, [])" "length (fst rv) \<le> length u" "skip_ws (fst rv) = fst rv"
    using assms(1) by (simp_all add: located.kept_def)
  have "skip_ws [] = []" by (simp add: skip_ws_def)
  with pval_mono [OF assms(3) k(1)] k(3) have "parse_json (fst rv) = Some (snd rv)"
    by (simp add: parse_json_def)
  with k assms(2) pval_solid [OF k(1)] show ?thesis by (simp add: piece_def)
qed

lemma parse_json_container:
  assumes "parse_json s = Some v"
  obtains (arr) u vs n d t where "v = JArr vs" "d \<le> maxNestingDepth" "length u < length s"
      "vs = [] \<or> elems n (pval d) u = Some (vs, t)"
  | (obj) u ms n d t where "v = JObj ms" "d \<le> maxNestingDepth" "length u < length s"
      "ms = [] \<or> members n (pval d) u = Some (ms, t)"
  | (scalar) "\<And>vs. v \<noteq> JArr vs" "\<And>ms. v \<noteq> JObj ms"
proof -
  obtain d where d: "maxNestingDepth = Suc d" by (auto simp add: maxNestingDepth_def numeral_eq_Suc)
  from assms obtain r where r: "pval (Suc d) (skip_ws s) = Some (v, r)"
    by (auto simp add: parse_json_def d split: option.splits if_splits prod.splits)
  then obtain c u where u: "skip_ws s = c # u" by (cases "skip_ws s") auto
  have len: "length (skip_ws u) < length s"
    using length_skip_ws [of s] length_skip_ws [of u] u by simp
  consider "c = CHR ''[''" "parray (pval d) u = Some (v, r)" | "c = CHR ''{''" "pobject (pval d) u = Some (v, r)"
    | "pscalar (c # u) = Some (v, r)"
    using r by (auto simp add: u split: if_splits)
  then show thesis
  proof cases
    case 1
    then obtain vs where "v = JArr vs" "vs = [] \<or> (\<exists>n. elems n (pval d) (skip_ws u) = Some (vs, r))"
      by (auto simp add: parray_def simp del: elems.simps split: list.splits if_splits)
    with len d arr [of vs d "skip_ws u"] show thesis by auto
  next
    case 2
    then obtain ms where "v = JObj ms" "ms = [] \<or> (\<exists>n. members n (pval d) (skip_ws u) = Some (ms, r))"
      by (auto simp add: pobject_def simp del: members.simps split: list.splits if_splits)
    with len d obj [of ms d "skip_ws u"] show thesis by auto
  next
    case 3
    then have "(\<forall>vs. v \<noteq> JArr vs) \<and> (\<forall>ms. v \<noteq> JObj ms)"
      by (auto simp add: pscalar_def dest!: pword_takes split: if_splits)
    with scalar show thesis by blast
  qed
qed

lemma parse_json_pieces:
  "parse_json s = Some (JArr vs) \<Longrightarrow> list_all (piece s) vs"
  "parse_json s = Some (JObj ms) \<Longrightarrow> list_all (\<lambda>m. piece s (snd m)) ms"
proof -
  show "list_all (piece s) vs" if "parse_json s = Some (JArr vs)"
    using that
  proof (cases rule: parse_json_container)
    case (arr u ws n d t)
    then have "list_all (local_value.kept (pval d) u) vs" using located.elems_kept by auto
    with arr kept_piece show ?thesis by (auto simp add: list_all_iff)
  qed auto
  show "list_all (\<lambda>m. piece s (snd m)) ms" if "parse_json s = Some (JObj ms)"
    using that
  proof (cases rule: parse_json_container)
    case (obj u ws n d t)
    then have "list_all (\<lambda>m. local_value.kept (pval d) u (snd m)) ms" using located.members_kept by auto
    with obj kept_piece show ?thesis by (auto simp add: list_all_iff)
  qed auto
qed

end
