(* ===== verification/GoFloat.thy ===== *)
theory GoFloat
  imports GoJson
begin

text \<open>
  JSON numbers as Go's \<open>float64\<close>: \<open>strconv.ParseFloat(s, 64)\<close> rounds the decimal to the nearest
  double, ties to even, and fails on overflow; \<open>strconv.AppendFloat(b, f, fmt, -1, 64)\<close> writes the
  shortest decimal that reads back as the same double, the closest one where there are several.
  Both are computed with exact integers. The format follows \<open>encoding/json\<close>: plain digits between
  \<open>1e-6\<close> and \<open>1e21\<close>, an exponent outside.

  The central fact is the round trip: what is written for a double reads back as that double, so
  writing numbers is idempotent.
\<close>

section \<open>Doubles\<close>

text \<open>A finite double without its sign: \<open>m * 2 ^ e\<close>.\<close>

type_synonym double = "nat \<times> int"

definition minExp :: int where "minExp = -1074"
definition maxExp :: int where "maxExp = 971"

definition is_double :: "double \<Rightarrow> bool" where
  "is_double x \<longleftrightarrow> fst x < 2 ^ 53 \<and> minExp \<le> snd x \<and> snd x \<le> maxExp \<and>
     (snd x = minExp \<or> 2 ^ 52 \<le> fst x)"

text \<open>\<open>p / (q * 2 ^ e)\<close> as a numerator and a denominator, and rounded to an integer.\<close>

definition scaled :: "nat \<Rightarrow> nat \<Rightarrow> int \<Rightarrow> nat \<times> nat" where
  "scaled p q e = (p * 2 ^ nat (- e), q * 2 ^ nat e)"

definition round_even :: "nat \<Rightarrow> nat \<Rightarrow> nat" where
  "round_even n d =
     (let r = n div d; t = 2 * (n mod d) in
      if t < d then r else if d < t then r + 1 else if even r then r else r + 1)"

text \<open>The exponent is the least one under which the quotient has at most 53 bits.\<close>

definition exponent_fits :: "nat \<Rightarrow> nat \<Rightarrow> int \<Rightarrow> bool" where
  "exponent_fits p q e \<longleftrightarrow> fst (scaled p q e) < 2 ^ 53 * snd (scaled p q e)"

definition round_double :: "nat \<Rightarrow> nat \<Rightarrow> double option" where
  "round_double p q =
     (case find (exponent_fits p q) [minExp..maxExp] of
        None \<Rightarrow> None
      | Some e \<Rightarrow>
          let m = round_even (fst (scaled p q e)) (snd (scaled p q e)) in
          if m = 2 ^ 53 then (if e = maxExp then None else Some (2 ^ 52, e + 1)) else Some (m, e))"

text \<open>The double nearest to \<open>D * 10 ^ k\<close>.\<close>

definition decimal_double :: "nat \<Rightarrow> int \<Rightarrow> double option" where
  "decimal_double D k = round_double (D * 10 ^ nat k) (10 ^ nat (- k))"

lemma find_upto:
  "find P [a..b] = Some e \<longleftrightarrow> a \<le> e \<and> e \<le> b \<and> P e \<and> (\<forall>i. a \<le> i \<and> i < e \<longrightarrow> \<not> P i)"
proof -
  have "find P [a..b] = Some e \<longleftrightarrow>
      (\<exists>i < length [a..b]. P ([a..b] ! i) \<and> e = [a..b] ! i \<and> (\<forall>j < i. \<not> P ([a..b] ! j)))"
    by (rule find_Some_iff)
  also have "\<dots> \<longleftrightarrow> (\<exists>i < nat (b - a + 1). P (a + int i) \<and> e = a + int i \<and> (\<forall>j < i. \<not> P (a + int j)))"
    by (auto simp add: nth_upto)
  also have "\<dots> \<longleftrightarrow> a \<le> e \<and> e \<le> b \<and> P e \<and> (\<forall>i. a \<le> i \<and> i < e \<longrightarrow> \<not> P i)" (is "?l \<longleftrightarrow> ?r")
  proof
    assume ?l
    then obtain i where i: "i < nat (b - a + 1)" "P (a + int i)" "e = a + int i"
        "\<forall>j < i. \<not> P (a + int j)" by blast
    moreover have "\<not> P j" if "a \<le> j" "j < e" for j
      using i(4)[rule_format, of "nat (j - a)"] that i(3) by simp
    ultimately show ?r by auto
  next
    assume r: ?r
    then have "nat (e - a) < nat (b - a + 1)" "P (a + int (nat (e - a)))" "e = a + int (nat (e - a))"
      "\<forall>j < nat (e - a). \<not> P (a + int j)" by auto
    then show ?l by blast
  qed
  finally show ?thesis .
qed

text \<open>A double is the rounding of its own value.\<close>

lemma round_double_exact:
  assumes "is_double (m, e)" "0 < m"
  shows "round_double (m * 2 ^ nat e) (2 ^ nat (- e)) = Some (m, e)"
proof -
  let ?p = "m * 2 ^ nat e" and ?q = "2 ^ nat (- e) :: nat"
  have at: "fst (scaled ?p ?q e) = m * (snd (scaled ?p ?q e))" "0 < snd (scaled ?p ?q e)"
    by (simp_all add: scaled_def)
  have "exponent_fits ?p ?q e"
    using assms(1) at by (simp add: exponent_fits_def is_double_def)
  moreover have "\<not> exponent_fits ?p ?q i" if "minExp \<le> i" "i < e" for i
  proof -
    have m: "2 ^ 52 \<le> m" using assms(1) that by (simp add: is_double_def)
    have "nat (- e) + nat i + 1 \<le> nat e + nat (- i)" using that(2) by linarith
    then have "(2 :: nat) ^ (nat (- e) + nat i + 1) \<le> 2 ^ (nat e + nat (- i))" by (rule power_increasing) simp
    then have "2 ^ 53 * (2 ^ nat (- e) * 2 ^ nat i) \<le> 2 ^ 52 * (2 ^ nat e * 2 ^ nat (- i) :: nat)"
      by (simp add: power_add mult_ac)
    also have "\<dots> \<le> m * (2 ^ nat e * 2 ^ nat (- i))" using m by (rule mult_le_mono1)
    finally show ?thesis by (simp add: exponent_fits_def scaled_def mult_ac)
  qed
  ultimately have "find (exponent_fits ?p ?q) [minExp..maxExp] = Some e"
    using assms(1) by (auto simp add: find_upto is_double_def)
  moreover have "round_even (fst (scaled ?p ?q e)) (snd (scaled ?p ?q e)) = m"
    using at by (simp add: round_even_def)
  moreover have "m \<noteq> 2 ^ 53" using assms(1) by (simp add: is_double_def)
  ultimately show ?thesis by (simp add: round_double_def)
qed

lemma round_even_le:
  assumes "0 < d"
  shows "n div d \<le> round_even n d" "round_even n d \<le> n div d + 1"
  by (simp_all add: round_even_def Let_def)

lemma round_even_bounds:
  assumes "0 < d"
  shows "a * d \<le> n \<Longrightarrow> a \<le> round_even n d" "n < b * d \<Longrightarrow> round_even n d \<le> b"
proof -
  show "a \<le> round_even n d" if "a * d \<le> n"
    using that round_even_le(1) [OF assms, of n] assms by (metis div_le_mono div_mult_self_is_m le_trans)
  show "round_even n d \<le> b" if "n < b * d"
    using that round_even_le(2) [OF assms, of n] assms by (simp add: div_less_iff_less_mult Suc_le_eq
        less_mult_imp_div_less le_trans)
qed

lemma round_double_is_double:
  assumes "0 < q" "round_double p q = Some x"
  shows "is_double x"
proof -
  from assms(2) obtain e where f: "find (exponent_fits p q) [minExp..maxExp] = Some e"
    and x: "x = (let m = round_even (fst (scaled p q e)) (snd (scaled p q e)) in
      if m = 2 ^ 53 then (2 ^ 52, e + 1) else (m, e))"
    and top: "round_even (fst (scaled p q e)) (snd (scaled p q e)) = 2 ^ 53 \<longrightarrow> e \<noteq> maxExp"
    by (auto simp add: round_double_def Let_def split: option.splits if_splits)
  let ?n = "fst (scaled p q e)" and ?d = "snd (scaled p q e)"
  have d: "0 < ?d" using assms(1) by (simp add: scaled_def)
  have e: "minExp \<le> e" "e \<le> maxExp" "?n < 2 ^ 53 * ?d"
    and least: "\<And>i. minExp \<le> i \<Longrightarrow> i < e \<Longrightarrow> \<not> exponent_fits p q i"
    using f by (auto simp add: find_upto exponent_fits_def)
  have "round_even ?n ?d \<le> 2 ^ 53" by (rule round_even_bounds(2) [OF d e(3)])
  moreover have "2 ^ 52 \<le> round_even ?n ?d" if "e \<noteq> minExp"
  proof -
    have "\<not> exponent_fits p q (e - 1)" using least [of "e - 1"] that e(1) by simp
    then have le: "2 ^ 53 * (q * 2 ^ nat (e - 1)) \<le> p * 2 ^ nat (1 - e)"
      by (simp add: exponent_fits_def scaled_def)
    have "2 ^ 52 * ?d \<le> ?n"
    proof (cases "1 \<le> e")
      case True
      then have "nat e = Suc (nat (e - 1))" "nat (1 - e) = 0" "nat (- e) = 0" by auto
      with le show ?thesis by (simp add: scaled_def)
    next
      case False
      then have "nat (1 - e) = Suc (nat (- e))" "nat (e - 1) = 0" "nat e = 0" by auto
      with le show ?thesis by (simp add: scaled_def)
    qed
    then show ?thesis by (rule round_even_bounds(1) [OF d])
  qed
  ultimately show ?thesis using e(1,2) top
    by (auto simp add: x is_double_def Let_def)
qed

section \<open>Shortest decimals\<close>

text \<open>
  At the scale \<open>10 ^ k\<close> the candidates are the multiples next to the value that read back as the
  double; the closer one is taken, the even one on a tie. Scales are tried from the largest down to
  one at which the value is a multiple itself, so the search always ends with a decimal.
\<close>

definition decimal_scaled :: "double \<Rightarrow> int \<Rightarrow> nat \<times> nat" where
  "decimal_scaled x k =
     (fst x * 2 ^ nat (snd x) * 10 ^ nat (- k), 2 ^ nat (- snd x) * 10 ^ nat k)"

definition candidate :: "double \<Rightarrow> int \<Rightarrow> nat option" where
  "candidate x k =
     (let (n, d) = decimal_scaled x k; lo = n div d; t = 2 * (n mod d);
          lo_ok = (decimal_double lo k = Some x); hi_ok = (decimal_double (lo + 1) k = Some x) in
      if lo_ok \<and> hi_ok then Some (if t < d \<or> t = d \<and> even lo then lo else lo + 1)
      else if lo_ok then Some lo else if hi_ok then Some (lo + 1) else None)"

definition maxScale :: int where "maxScale = 309"

definition minScale :: "double \<Rightarrow> int" where
  "minScale x = min 0 (snd x)"

definition shortest :: "double \<Rightarrow> nat \<times> int" where
  "shortest x =
     (case find (\<lambda>k. candidate x k \<noteq> None) (rev [minScale x..maxScale]) of
        None \<Rightarrow> (0, 0)
      | Some k \<Rightarrow> (the (candidate x k), k))"

lemma candidate_reads: "candidate x k = Some D \<Longrightarrow> decimal_double D k = Some x"
  by (auto simp add: candidate_def Let_def split: prod.splits if_splits)

lemma round_even_cancel: "0 < c \<Longrightarrow> round_even (c * n) (c * d) = round_even n d"
proof -
  assume c: "0 < c"
  have "c * n mod (c * d) = c * (n mod d)" by simp
  then show ?thesis
    using c by (simp add: round_even_def Let_def mult.left_commute [of 2 c])
qed

lemma round_double_cancel:
  assumes "0 < c"
  shows "round_double (c * p) (c * q) = round_double p q"
proof -
  have sc: "scaled (c * p) (c * q) e = (c * fst (scaled p q e), c * snd (scaled p q e))" for e
    by (simp add: scaled_def mult.assoc)
  have "exponent_fits (c * p) (c * q) = exponent_fits p q"
    using assms by (simp add: fun_eq_iff exponent_fits_def sc mult.left_commute [of _ c])
  then show ?thesis
    by (simp add: round_double_def sc round_even_cancel [OF assms] split: option.split)
qed

text \<open>At the least scale the value is itself a candidate.\<close>

lemma decimal_double_exact:
  assumes "is_double (m, e)" "0 < m"
  shows "\<exists>D. decimal_double D (minScale (m, e)) = Some (m, e) \<and>
    fst (decimal_scaled (m, e) (minScale (m, e))) = D * snd (decimal_scaled (m, e) (minScale (m, e)))"
proof (cases "0 \<le> e")
  case True
  then show ?thesis
    using round_double_exact [OF assms]
    by (intro exI [of _ "m * 2 ^ nat e"])
       (simp add: minScale_def decimal_double_def decimal_scaled_def)
next
  case False
  let ?f = "5 ^ nat (- e) :: nat" and ?t = "2 ^ nat (- e) :: nat"
  have ten: "(10 :: nat) ^ nat (- e) = ?f * ?t" by (simp flip: power_mult_distrib)
  have "round_double (?f * m) (?f * ?t) = round_double m ?t" by (rule round_double_cancel) simp
  also have "\<dots> = Some (m, e)" using round_double_exact [OF assms] False by simp
  finally show ?thesis
    using False by (intro exI [of _ "?f * m"])
      (simp add: minScale_def decimal_double_def decimal_scaled_def ten mult_ac)
qed

lemma candidate_exact:
  assumes "is_double x" "0 < fst x"
  shows "candidate x (minScale x) \<noteq> None"
proof -
  obtain m e where x: "x = (m, e)" by (cases x)
  let ?ds = "decimal_scaled x (minScale x)"
  from decimal_double_exact [of m e] assms obtain D where
    D: "decimal_double D (minScale x) = Some x" "fst ?ds = D * snd ?ds"
    by (auto simp add: x)
  have "0 < snd ?ds" by (simp add: decimal_scaled_def)
  with D(2) have "fst ?ds div snd ?ds = D" by simp
  with D(1) show ?thesis by (simp add: candidate_def Let_def split: prod.split) (metis fst_conv snd_conv)
qed

text \<open>The shortest decimal has no trailing zero: a multiple of ten is tried at the scale above.\<close>

lemma decimal_scaled_step:
  "fst (decimal_scaled x (k + 1)) * (snd (decimal_scaled x k) * 10) =
   fst (decimal_scaled x k) * snd (decimal_scaled x (k + 1))"
proof (cases "0 \<le> k")
  case True
  then have "nat (k + 1) = Suc (nat k)" "nat (- (k + 1)) = 0" "nat (- k) = 0" by auto
  then show ?thesis by (simp add: decimal_scaled_def)
next
  case False
  then have "nat (- k) = Suc (nat (- (k + 1)))" "nat (k + 1) = 0" "nat k = 0" by auto
  then show ?thesis by (simp add: decimal_scaled_def)
qed

lemma div_cross:
  assumes "a * (d * 10) = b * e" "0 < d" "0 < (e :: nat)"
  shows "a div e = b div d div 10"
proof -
  have "a div e = a * (d * 10) div (e * (d * 10))" using assms(2) by simp
  also have "\<dots> = b * e div (d * 10 * e)" by (simp add: assms(1) mult_ac)
  also have "\<dots> = b div (d * 10)" using assms(3) by simp
  finally show ?thesis by (simp add: div_mult2_eq)
qed

lemma decimal_double_shift: "decimal_double (D * 10) k = decimal_double D (k + 1)"
proof (cases "0 \<le> k")
  case True
  then have "nat (k + 1) = Suc (nat k)" "nat (- (k + 1)) = 0" "nat (- k) = 0" by auto
  then show ?thesis by (simp add: decimal_double_def mult.assoc)
next
  case False
  then have k: "nat (- k) = Suc (nat (- (k + 1)))" "nat (k + 1) = 0" "nat k = 0" by auto
  show ?thesis
    using round_double_cancel [of 10 D "10 ^ nat (- (k + 1))"]
    by (simp add: decimal_double_def k mult.commute)
qed

lemma candidate_trailing_zero:
  assumes "candidate x k = Some (D * 10)"
  shows "candidate x (k + 1) \<noteq> None"
proof -
  let ?n = "fst (decimal_scaled x k)" and ?d = "snd (decimal_scaled x k)"
  let ?n' = "fst (decimal_scaled x (k + 1))" and ?d' = "snd (decimal_scaled x (k + 1))"
  have up: "?n' div ?d' = ?n div ?d div 10"
    by (rule div_cross [OF decimal_scaled_step]) (simp_all add: decimal_scaled_def)
  have reads: "decimal_double D (k + 1) = Some x"
    using candidate_reads [OF assms] by (simp add: decimal_double_shift)
  have "D * 10 = ?n div ?d \<or> D * 10 = ?n div ?d + 1"
    using assms by (auto simp add: candidate_def Let_def split: prod.splits if_splits)
  then have "D = ?n' div ?d' \<or> D = ?n' div ?d' + 1" unfolding up by linarith
  with reads show ?thesis
    by (auto simp add: candidate_def Let_def split: prod.split)
qed

lemma find_rev_upto:
  assumes "find P (rev [a..b]) = Some e"
  shows "P e \<and> a \<le> e \<and> e \<le> b \<and> (\<forall>i. e < i \<and> i \<le> b \<longrightarrow> \<not> P i)"
proof -
  have "find P (rev xs) = Some e \<Longrightarrow> sorted_wrt (<) xs \<Longrightarrow>
      P e \<and> e \<in> set xs \<and> (\<forall>i\<in>set xs. e < i \<longrightarrow> \<not> P i)" for xs :: "int list"
  proof (induction xs rule: rev_induct)
    case (snoc y ys)
    show ?case
    proof (cases "P y")
      case True
      with snoc.prems show ?thesis by (force simp add: sorted_wrt_append)
    next
      case False
      with snoc show ?thesis by (auto simp add: sorted_wrt_append)
    qed
  qed simp
  from this [OF assms] show ?thesis by (simp add: sorted_wrt_upto)
qed

lemma shortest_found:
  assumes "is_double x" "0 < fst x"
  obtains k where "shortest x = (the (candidate x k), k)" "candidate x k \<noteq> None"
    "minScale x \<le> k" "k \<le> maxScale" "\<forall>i. k < i \<and> i \<le> maxScale \<longrightarrow> candidate x i = None"
proof -
  have "minScale x \<in> set (rev [minScale x..maxScale])"
    by (simp add: minScale_def maxScale_def)
  with candidate_exact [OF assms] have
    "find (\<lambda>k. candidate x k \<noteq> None) (rev [minScale x..maxScale]) \<noteq> None"
    unfolding find_None_iff by blast
  then obtain k where k: "find (\<lambda>k. candidate x k \<noteq> None) (rev [minScale x..maxScale]) = Some k"
    by blast
  then have "shortest x = (the (candidate x k), k)" unfolding shortest_def by simp
  with find_rev_upto [OF k] that show thesis by auto
qed

text \<open>So the decimal written for a double reads back as the double.\<close>

lemma shortest_reads:
  assumes "is_double x" "0 < fst x"
  shows "decimal_double (fst (shortest x)) (snd (shortest x)) = Some x"
proof -
  obtain k where "shortest x = (the (candidate x k), k)" "candidate x k \<noteq> None"
    by (rule shortest_found [OF assms])
  then show ?thesis using candidate_reads [of x k] by auto
qed

lemma decimal_double_0: "decimal_double 0 k = Some (0, minExp)"
proof -
  have "find (exponent_fits 0 (10 ^ nat (- k))) [minExp..maxExp] = Some minExp"
    by (auto simp add: find_upto exponent_fits_def scaled_def minExp_def maxExp_def)
  moreover have "round_even (fst (scaled 0 q minExp)) d = 0" for q d
    by (simp add: round_even_def scaled_def Let_def)
  ultimately show ?thesis by (simp add: decimal_double_def round_double_def)
qed

lemma top_scale:
  assumes "is_double x"
  shows "fst (decimal_scaled x maxScale) < snd (decimal_scaled x maxScale)"
proof -
  have "fst x * 2 ^ nat (snd x) < 2 ^ 53 * 2 ^ 971"
  proof (rule mult_less_le_imp_less)
    show "fst x < 2 ^ 53" using assms by (simp add: is_double_def)
    have "nat (snd x) \<le> 971" using assms by (auto simp add: is_double_def maxExp_def)
    then show "(2 :: nat) ^ nat (snd x) \<le> 2 ^ 971" by (rule power_increasing) simp
  qed simp_all
  also have "\<dots> \<le> (10 :: nat) ^ 309" by simp
  also have "\<dots> \<le> 2 ^ nat (- snd x) * 10 ^ 309" by simp
  finally show ?thesis by (simp add: decimal_scaled_def maxScale_def)
qed

lemma shortest_no_trailing_zero:
  assumes "is_double x" "0 < fst x"
  shows "fst (shortest x) mod 10 \<noteq> 0"
proof
  assume "fst (shortest x) mod 10 = 0"
  then obtain D where D: "fst (shortest x) = D * 10" by (auto simp add: mod_eq_0_iff_dvd mult.commute)
  obtain k where k: "shortest x = (the (candidate x k), k)" "candidate x k \<noteq> None"
      "minScale x \<le> k" "k \<le> maxScale" "\<forall>i. k < i \<and> i \<le> maxScale \<longrightarrow> candidate x i = None"
    by (rule shortest_found [OF assms])
  then have c: "candidate x k = Some (D * 10)" using D by auto
  then have "candidate x (k + 1) \<noteq> None" by (rule candidate_trailing_zero)
  with k(4,5) have "k = maxScale" by (metis zless_add1_eq add1_zle_eq order_le_less)
  then have "D * 10 = 0 \<or> D * 10 = 1"
    using c top_scale [OF assms(1)] by (auto simp add: candidate_def Let_def split: prod.splits if_splits)
  then have "decimal_double 0 k = Some x" using candidate_reads [OF c] by simp
  with assms(2) show False by (auto simp add: decimal_double_0)
qed

text \<open>A bound on the digits of the shortest decimal.\<close>

lemma shortest_bound:
  assumes "is_double x" "0 < fst x"
  shows "fst (shortest x) < 10 ^ 1400" "- 1074 \<le> snd (shortest x)" "snd (shortest x) \<le> 309"
proof -
  obtain k where k: "shortest x = (the (candidate x k), k)" "candidate x k \<noteq> None" "minScale x \<le> k"
      "k \<le> maxScale"
    by (rule shortest_found [OF assms])
  have k': "- 1074 \<le> k" "k \<le> 309"
    using k(3,4) assms(1) by (auto simp add: minScale_def maxScale_def is_double_def minExp_def)
  then show "- 1074 \<le> snd (shortest x)" "snd (shortest x) \<le> 309" by (simp_all add: k(1))
  let ?n = "fst (decimal_scaled x k)" and ?d = "snd (decimal_scaled x k)"
  have "the (candidate x k) \<le> ?n div ?d + 1"
    using k(2) by (auto simp add: candidate_def Let_def split: prod.splits if_splits)
  also have "\<dots> \<le> ?n + 1" by simp
  also have "\<dots> \<le> 10 ^ 309 * 10 ^ 1074 + 1"
  proof -
    have "nat (snd x) \<le> 971" using assms by (auto simp add: is_double_def maxExp_def)
    then have "(2 :: nat) ^ nat (snd x) \<le> 2 ^ 971" by (rule power_increasing) simp
    moreover have "fst x \<le> 2 ^ 53" using assms(1) by (auto simp add: is_double_def)
    ultimately have "fst x * 2 ^ nat (snd x) \<le> 2 ^ 53 * 2 ^ 971" by (intro mult_le_mono)
    also have "\<dots> \<le> (10 :: nat) ^ 309" by simp
    finally have "fst x * 2 ^ nat (snd x) \<le> 10 ^ 309" .
    moreover have "(10 :: nat) ^ nat (- k) \<le> 10 ^ 1074" by (rule power_increasing) (use k' in simp_all)
    ultimately have "fst x * 2 ^ nat (snd x) * 10 ^ nat (- k) \<le> 10 ^ 309 * 10 ^ 1074"
      by (rule mult_le_mono)
    then show ?thesis unfolding decimal_scaled_def fst_conv by (rule add_right_mono)
  qed
  also have "\<dots> < (10 :: nat) ^ 1400"
  proof -
    define N :: nat where "N = 10 ^ 309 * 10 ^ 1074"
    have "(10 :: nat) ^ (309 + 1074 + 17) = N * 10 ^ 17"
      unfolding N_def power_add ..
    moreover have "309 + 1074 + 17 = (1400 :: nat)" by simp
    moreover have "0 < N" unfolding N_def by (intro mult_pos_pos zero_less_power zero_less_numeral)
    then have "N + 1 < N * 10 ^ 17" by simp
    ultimately show ?thesis unfolding N_def by (simp only:)
  qed
  finally show "fst (shortest x) < 10 ^ 1400" by (simp only: k(1) fst_conv)
qed

section \<open>Number texts\<close>

text \<open>
  The parts \<open>readFloat\<close> takes from a text: the sign, the digits without the dot as one integer, and
  the power of ten. The digits of the exponent stop counting at 10000.
\<close>

fun frac_digits :: "string \<Rightarrow> string \<times> string" where
  "frac_digits [] = ([], [])"
| "frac_digits (c # s) =
     (if c = CHR ''.'' then (takeWhile isDigit s, dropWhile isDigit s) else ([], c # s))"

definition clipped_val :: "string \<Rightarrow> nat" where
  "clipped_val s = foldl (\<lambda>e c. if e < 10000 then e * 10 + (ord_of c - 48) else e) 0 s"

fun exp_val :: "string \<Rightarrow> int" where
  "exp_val [] = 0"
| "exp_val (c # s) =
     (if c = CHR ''e'' \<or> c = CHR ''E'' then
        (let (sg, t) = psign s; a = int (clipped_val (takeWhile isDigit t)) in
         if sg = ''-'' then - a else a)
      else 0)"

definition readFloat :: "string \<Rightarrow> bool \<times> nat \<times> int" where
  "readFloat s =
     (let (m, s) = pminus s; i = takeWhile isDigit s; (f, r) = frac_digits (dropWhile isDigit s) in
      (m \<noteq> [], digits_val (i @ f), exp_val r - int (length f)))"

definition ParseFloat :: "string \<Rightarrow> (bool \<times> double) option" where
  "ParseFloat s =
     (case readFloat s of (neg, D, k) \<Rightarrow> map_option (\<lambda>x. (neg, x)) (decimal_double D k))"

text \<open>A number text from its parts.\<close>

definition exp_text :: "int option \<Rightarrow> string" where
  "exp_text e =
     (case e of None \<Rightarrow> []
      | Some x \<Rightarrow> CHR ''e'' # (if x < 0 then CHR ''-'' else CHR ''+'') # format_nat (nat \<bar>x\<bar>))"

definition num_text :: "string \<Rightarrow> string \<Rightarrow> int option \<Rightarrow> string" where
  "num_text i f e = i @ (if f = [] then [] else CHR ''.'' # f) @ exp_text e"

lemma digits_split:
  assumes "all_digits a" "r = [] \<or> \<not> isDigit (hd r)"
  shows "takeWhile isDigit (a @ r) = a" "dropWhile isDigit (a @ r) = r"
proof -
  have "\<forall>c\<in>set a. isDigit c" using assms(1) by (simp add: all_digits_def list_all_iff)
  with assms(2) show "takeWhile isDigit (a @ r) = a" "dropWhile isDigit (a @ r) = r"
    by (cases r; simp add: takeWhile_append dropWhile_append)+
qed

lemma not_isDigit_marks [simp]: "\<not> isDigit CHR ''e''" "\<not> isDigit CHR ''.''"
  by (simp_all add: isDigit_def)

lemma exp_text_head: "exp_text e = [] \<or> (\<exists>t. exp_text e = CHR ''e'' # t)"
  by (cases e) (simp_all add: exp_text_def)

definition num_parts :: "string \<Rightarrow> string \<Rightarrow> bool" where
  "num_parts i f \<longleftrightarrow> i \<noteq> [] \<and> all_digits i \<and> no_leading_zero i \<and> all_digits f"

lemma format_digits [simp]:
  "takeWhile isDigit (format_nat n) = format_nat n" "dropWhile isDigit (format_nat n) = []"
  using digits_split [of "format_nat n" "[]"] by simp_all

lemma pexp_exp_text: "pexp (exp_text e) = Some (exp_text e, [])"
  by (cases e) (simp_all add: exp_text_def Let_def)

lemma num_text_tail:
  "all_digits f \<Longrightarrow> pfrac ((if f = [] then [] else CHR ''.'' # f) @ exp_text e) =
     Some (if f = [] then [] else CHR ''.'' # f, exp_text e)"
  "all_digits f \<Longrightarrow> frac_digits ((if f = [] then [] else CHR ''.'' # f) @ exp_text e) = (f, exp_text e)"
proof -
  have head: "exp_text e = [] \<or> \<not> isDigit (hd (exp_text e))" using exp_text_head [of e] by auto
  note split = digits_split [OF _ head, of f]
  show "all_digits f \<Longrightarrow> pfrac ((if f = [] then [] else CHR ''.'' # f) @ exp_text e) =
      Some (if f = [] then [] else CHR ''.'' # f, exp_text e)"
    using split exp_text_head [of e] by (cases "f = []") auto
  show "all_digits f \<Longrightarrow> frac_digits ((if f = [] then [] else CHR ''.'' # f) @ exp_text e) = (f, exp_text e)"
    using split exp_text_head [of e] by (cases "f = []") auto
qed

lemma num_text_split:
  assumes "num_parts i f"
  shows "takeWhile isDigit (num_text i f e) = i"
    "dropWhile isDigit (num_text i f e) = (if f = [] then [] else CHR ''.'' # f) @ exp_text e"
proof -
  have "all_digits i" using assms by (simp add: num_parts_def)
  moreover have "(if f = [] then [] else CHR ''.'' # f) @ exp_text e = [] \<or>
      \<not> isDigit (hd ((if f = [] then [] else CHR ''.'' # f) @ exp_text e))"
    using exp_text_head [of e] by auto
  ultimately show "takeWhile isDigit (num_text i f e) = i"
    "dropWhile isDigit (num_text i f e) = (if f = [] then [] else CHR ''.'' # f) @ exp_text e"
    unfolding num_text_def by (rule digits_split)+
qed

lemma num_text_not_minus: "num_parts i f \<Longrightarrow> pminus (num_text i f e) = ([], num_text i f e)"
  by (cases i) (auto simp add: num_parts_def num_text_def)

lemma pint_num_text:
  assumes "num_parts i f"
  shows "pint (num_text i f e) = Some (i, (if f = [] then [] else CHR ''.'' # f) @ exp_text e)"
proof -
  obtain c i' where i: "i = c # i'" using assms by (cases i) (auto simp add: num_parts_def)
  show ?thesis
  proof (cases "c = CHR ''0''")
    case True
    then have "i' = []" using assms by (simp add: i num_parts_def no_leading_zero_def)
    with True show ?thesis by (simp add: i num_text_def)
  next
    case False
    moreover have "isDigit c" using assms by (simp add: i num_parts_def)
    ultimately show ?thesis
      using num_text_split [OF assms, of e] by (simp add: i num_text_def)
  qed
qed

text \<open>A text from parts is a JSON number, with or without a minus, and reads as its parts.\<close>

lemma pnum_num_text:
  assumes "num_parts i f"
  shows "pnum (num_text i f e) = Some (num_text i f e, [])"
    "pnum (CHR ''-'' # num_text i f e) = Some (CHR ''-'' # num_text i f e, [])"
proof -
  have f: "all_digits f" using assms by (simp add: num_parts_def)
  have p: "pint (snd (pminus s)) = Some (i, (if f = [] then [] else CHR ''.'' # f) @ exp_text e)"
    if "s = num_text i f e \<or> s = CHR ''-'' # num_text i f e" for s
    using that pint_num_text [OF assms] num_text_not_minus [OF assms, of e] by auto
  show "pnum (num_text i f e) = Some (num_text i f e, [])"
    unfolding pnum_eq
    by (intro exI conjI, rule p, simp, rule num_text_tail(1) [OF f], rule pexp_exp_text)
       (subst num_text_not_minus [OF assms], simp add: num_text_def)
  show "pnum (CHR ''-'' # num_text i f e) = Some (CHR ''-'' # num_text i f e, [])"
    unfolding pnum_eq
    by (intro exI conjI, rule p, simp, rule num_text_tail(1) [OF f], rule pexp_exp_text)
       (simp add: num_text_def)
qed

lemma clipped_val_small: "digits_val s < 10000 \<Longrightarrow> clipped_val s = digits_val s"
proof (induction s rule: rev_induct)
  case (snoc c s)
  then have "digits_val s < 10000" by simp
  with snoc show ?case by (simp add: clipped_val_def)
qed (simp add: clipped_val_def)

definition exp_of :: "int option \<Rightarrow> int" where
  "exp_of e = (case e of None \<Rightarrow> 0 | Some x \<Rightarrow> x)"

lemma exp_val_exp_text: "\<bar>exp_of e\<bar> < 10000 \<Longrightarrow> exp_val (exp_text e) = exp_of e"
  by (cases e) (auto simp add: exp_text_def exp_of_def Let_def clipped_val_small)

lemma readFloat_num_text:
  assumes "num_parts i f" "\<bar>exp_of e\<bar> < 10000"
  shows "readFloat (num_text i f e) = (False, digits_val (i @ f), exp_of e - int (length f))"
    "readFloat (CHR ''-'' # num_text i f e) = (True, digits_val (i @ f), exp_of e - int (length f))"
proof -
  have f: "all_digits f" using assms by (simp add: num_parts_def)
  note parts = num_text_split [OF assms(1)] num_text_tail(2) [OF f] exp_val_exp_text [OF assms(2)]
  show "readFloat (num_text i f e) = (False, digits_val (i @ f), exp_of e - int (length f))"
    by (simp add: readFloat_def num_text_not_minus [OF assms(1)] parts Let_def del: frac_digits.simps)
  show "readFloat (CHR ''-'' # num_text i f e) = (True, digits_val (i @ f), exp_of e - int (length f))"
    by (simp add: readFloat_def parts Let_def del: frac_digits.simps)
qed

section \<open>Writing a double\<close>

text \<open>The value of one double against that of another.\<close>

definition less_double :: "double \<Rightarrow> double \<Rightarrow> bool" where
  "less_double x y \<longleftrightarrow>
     fst x * 2 ^ nat (snd x) * 2 ^ nat (- snd y) < fst y * 2 ^ nat (snd y) * 2 ^ nat (- snd x)"

definition exp_format :: "double \<Rightarrow> bool" where
  "exp_format x \<longleftrightarrow> less_double x (the (decimal_double 1 (- 6))) \<or>
     \<not> less_double x (the (decimal_double 1 21))"

text \<open>
  The digits \<open>ds\<close> with the decimal point behind the first \<open>dp\<close> of them. The exponent has at least
  two digits in \<open>strconv\<close>; the package removes the zero of a negative one with a single digit, and
  a positive exponent is at least 21.
\<close>

definition fmtF :: "string \<Rightarrow> int \<Rightarrow> string" where
  "fmtF ds dp =
     (if dp \<le> 0 then num_text ''0'' (replicate (nat (- dp)) zero_char @ ds) None
      else if nat dp < length ds then num_text (take (nat dp) ds) (drop (nat dp) ds) None
      else num_text (ds @ replicate (nat dp - length ds) zero_char) [] None)"

definition fmtE :: "string \<Rightarrow> int \<Rightarrow> string" where
  "fmtE ds dp = num_text (take 1 ds) (drop 1 ds) (Some (dp - 1))"

definition format_float :: "bool \<times> double \<Rightarrow> string" where
  "format_float nx =
     (let (neg, x) = nx;
          t = (if fst x = 0 then ''0''
               else let (D, k) = shortest x; ds = format_nat D; dp = int (length ds) + k in
                 if exp_format x then fmtE ds dp else fmtF ds dp) in
      if neg then CHR ''-'' # t else t)"

text \<open>The parts of what is written: a number text whose decimal is the shortest one.\<close>

definition written :: "string \<Rightarrow> nat \<Rightarrow> int \<Rightarrow> bool" where
  "written t D k \<longleftrightarrow> (\<exists>i f e. t = num_text i f e \<and> num_parts i f \<and> \<bar>exp_of e\<bar> < 10000 \<and>
     decimal_double (digits_val (i @ f)) (exp_of e - int (length f)) = decimal_double D k)"

lemma writtenI:
  "t = num_text i f e \<Longrightarrow> num_parts i f \<Longrightarrow> \<bar>exp_of e\<bar> < 10000 \<Longrightarrow>
   decimal_double (digits_val (i @ f)) (exp_of e - int (length f)) = decimal_double D k \<Longrightarrow> written t D k"
  unfolding written_def by blast

lemma length_format_nat: "n < 10 ^ k \<Longrightarrow> length (format_nat n) \<le> max 1 k"
proof (induction n arbitrary: k rule: format_nat.induct)
  case (1 n)
  show ?case
  proof (cases "n < 10")
    case True
    then show ?thesis by (subst format_nat.simps) simp
  next
    case False
    then obtain j where k: "k = Suc j" using 1(2) by (cases k) auto
    have "n div 10 < 10 ^ j" using 1(2) by (simp add: k div_less_iff_less_mult mult.commute)
    then have "length (format_nat (n div 10)) \<le> max 1 j" using 1(1) False by blast
    moreover have "0 < j" using False 1(2) k by (cases j) auto
    ultimately show ?thesis using False by (subst format_nat.simps) (simp add: k)
  qed
qed

lemma all_digits_take: "all_digits s \<Longrightarrow> all_digits (take n s)"
  and all_digits_drop: "all_digits s \<Longrightarrow> all_digits (drop n s)"
  by (auto simp add: all_digits_def list_all_iff dest: in_set_takeD in_set_dropD)

lemma written_fmtF:
  assumes "D \<noteq> 0"
  shows "written (fmtF (format_nat D) (int (length (format_nat D)) + k)) D k"
proof -
  let ?ds = "format_nat D" and ?n = "int (length (format_nat D))"
  have "?ds \<noteq> [zero_char]"
  proof
    assume "?ds = [zero_char]"
    then have "digits_val ?ds = 0" by (simp add: digits_val_Cons)
    with assms show False by simp
  qed
  then have ds: "?ds \<noteq> []" "all_digits ?ds" "hd ?ds \<noteq> zero_char"
    using format_nat_no_leading_zero [of D] by (auto simp add: no_leading_zero_def)
  consider "?n + k \<le> 0" | "0 < ?n + k" "k < 0" | "0 \<le> k" by linarith
  then show ?thesis
  proof cases
    case 1
    then have "fmtF ?ds (?n + k) = num_text ''0'' (replicate (nat (- (?n + k))) zero_char @ ?ds) None"
      by (simp add: fmtF_def)
    moreover have "exp_of None - int (length (replicate (nat (- (?n + k))) zero_char @ ?ds)) = k"
      using 1 by (simp add: exp_of_def)
    ultimately show ?thesis
      using ds
      by (intro writtenI [of _ "''0''" "replicate (nat (- (?n + k))) zero_char @ ?ds" "None"])
         (simp_all add: fmtF_def num_parts_def no_leading_zero_def exp_of_def digits_val_Cons
           digits_val_append [of "replicate _ _"] isDigit_def [of "CHR ''0''"])
  next
    case 2
    then have "nat (?n + k) < length ?ds" "0 < nat (?n + k)" by auto
    moreover from this have "take (nat (?n + k)) ?ds \<noteq> []" using ds(1) by auto
    moreover from this have "no_leading_zero (take (nat (?n + k)) ?ds)"
      using ds(3) by (simp add: no_leading_zero_def)
    moreover have "int (length ?ds - nat (?n + k)) = - k" using 2 by auto
    ultimately show ?thesis
      using 2 ds
      by (intro writtenI [of _ "take (nat (?n + k)) ?ds" "drop (nat (?n + k)) ?ds" "None"])
         (simp_all add: fmtF_def num_parts_def exp_of_def all_digits_take all_digits_drop)
  next
    case 3
    let ?z = "replicate (nat k) zero_char"
    have "0 < ?n" using ds(1) by simp
    then have "nat (?n + k) - length ?ds = nat k" "\<not> nat (?n + k) < length ?ds" "\<not> ?n + k \<le> 0"
      using 3 by linarith+
    moreover have "decimal_double (D * 10 ^ nat k) 0 = decimal_double D k"
      using 3 by (simp add: decimal_double_def)
    ultimately show ?thesis
      using ds
      by (intro writtenI [of _ "?ds @ ?z" "[]" "None"])
         (simp_all add: fmtF_def num_parts_def exp_of_def no_leading_zero_def)
  qed
qed

lemma written_fmtE:
  assumes "\<bar>int (length (format_nat D)) + k - 1\<bar> < 10000"
  shows "written (fmtE (format_nat D) (int (length (format_nat D)) + k)) D k"
proof -
  obtain c r where ds: "format_nat D = c # r" by (cases "format_nat D") auto
  then have "all_digits (c # r)" by (metis format_nat_digits)
  moreover have "no_leading_zero [c]" by (simp add: no_leading_zero_def)
  moreover have "digits_val (c # r) = D" using format_nat_val [of D] by (simp add: ds)
  ultimately show ?thesis
    using assms
    by (intro writtenI [of _ "[c]" "r" "Some (int (length (c # r)) + k - 1)"])
       (simp_all add: fmtE_def num_parts_def exp_of_def ds)
qed

lemma shortest_written:
  assumes "is_double x" "0 < fst x"
  shows "written (let (D, k) = shortest x; ds = format_nat D; dp = int (length ds) + k in
     if exp_format x then fmtE ds dp else fmtF ds dp) (fst (shortest x)) (snd (shortest x))"
proof -
  let ?D = "fst (shortest x)" and ?k = "snd (shortest x)"
  have "?D \<noteq> 0"
    using shortest_no_trailing_zero [OF assms] by (metis mod_0)
  moreover have "\<bar>int (length (format_nat ?D)) + ?k - 1\<bar> < 10000"
    using length_format_nat [OF shortest_bound(1) [OF assms]] shortest_bound(2,3) [OF assms] by simp
  ultimately show ?thesis
    using written_fmtF [of ?D ?k] written_fmtE [of ?D ?k] by (simp add: Let_def split_beta)
qed

lemma format_float_written:
  assumes "is_double x"
  obtains t D k where "format_float (neg, x) = (if neg then CHR ''-'' # t else t)" "written t D k"
    "decimal_double D k = Some x"
proof (cases "fst x = 0")
  case True
  then have "x = (0, minExp)" using assms by (cases x) (simp add: is_double_def)
  moreover have "written ''0'' 0 0"
    by (intro writtenI [of _ "''0''" "[]" "None"])
       (simp_all add: num_text_def exp_text_def num_parts_def no_leading_zero_def exp_of_def
         isDigit_def digits_val_Cons)
  ultimately show thesis using that decimal_double_0 True by (simp add: format_float_def)
next
  case False
  then have x: "0 < fst x" by simp
  show thesis
    by (rule that [OF _ shortest_written [OF assms x] shortest_reads [OF assms x]])
       (use False in \<open>simp add: format_float_def\<close>)
qed

text \<open>What is written is a JSON number and reads back as the double.\<close>

lemma ParseFloat_format:
  assumes "is_double x"
  shows "ParseFloat (format_float (neg, x)) = Some (neg, x)"
    and "pnum (format_float (neg, x)) = Some (format_float (neg, x), [])"
proof -
  obtain t D k where t: "format_float (neg, x) = (if neg then CHR ''-'' # t else t)" "written t D k"
      "decimal_double D k = Some x"
    by (rule format_float_written [OF assms])
  then obtain i f e where n: "t = num_text i f e" "num_parts i f" "\<bar>exp_of e\<bar> < 10000"
      "decimal_double (digits_val (i @ f)) (exp_of e - int (length f)) = Some x"
    by (auto simp add: written_def)
  show "ParseFloat (format_float (neg, x)) = Some (neg, x)"
    using readFloat_num_text [OF n(2,3)] n(4) by (simp add: ParseFloat_def t(1) n(1))
  show "pnum (format_float (neg, x)) = Some (format_float (neg, x), [])"
    using pnum_num_text [OF n(2)] by (simp add: t(1) n(1))
qed

lemma ParseFloat_is_double:
  assumes "ParseFloat s = Some (neg, x)"
  shows "is_double x"
proof -
  from assms obtain D k where "round_double (D * 10 ^ nat k) (10 ^ nat (- k)) = Some x"
    by (auto simp add: ParseFloat_def decimal_double_def split: prod.splits)
  then show ?thesis by (rule round_double_is_double [rotated]) simp
qed

end
