(* ===== verification/CanonTree.thy ===== *)
theory CanonTree
  imports JsonLocal GoFloat GoJsonEnc GoUnmarshal
begin

text \<open>
  The abstract specification of canonical JSON. \<open>canon\<close> takes the parse tree of a document to its
  canonical tree: of a repeated key the last value counts, the keys are sorted, and a number is the
  shortest text of the double it reads as. A number that overflows a double has no canonical tree.
  The trees \<open>canon\<close> gives are exactly the \<open>canonical\<close> ones, and printing them is injective.
\<close>

section \<open>Lists of options\<close>

lemma those_Some_iff: "those xs = Some ys \<longleftrightarrow> xs = map Some ys"
  by (induction xs arbitrary: ys) (auto split: option.splits)

lemma those_map_Some: "those (map f xs) = Some ys \<longleftrightarrow> list_all2 (\<lambda>x y. f x = Some y) xs ys"
  by (induction xs arbitrary: ys) (auto simp add: list_all2_Cons1 split: option.splits)

lemma those_map_id: "\<forall>x\<in>set xs. f x = Some (g x) \<Longrightarrow> those (map f xs) = Some (map g xs)"
  by (induction xs) auto

text \<open>A loop that stops at the first error, when there is one error only.\<close>

lemma mapE_those:
  assumes "\<And>x. x \<in> set xs \<Longrightarrow> f x = (case g x of None \<Rightarrow> Inl e | Some y \<Rightarrow> Inr (h y))"
  shows "mapE f xs = (case those (map g xs) of None \<Rightarrow> Inl e | Some ys \<Rightarrow> Inr (map h ys))"
  using assms by (induction xs) (auto split: option.splits)

lemma list_all2_member: "list_all2 P xs ys \<Longrightarrow> y \<in> set ys \<Longrightarrow> \<exists>x\<in>set xs. P x y"
  by (induction rule: list_all2_induct) auto

section \<open>The members of an object\<close>

text \<open>The sorted keys of a member list, each with its last value.\<close>

definition sorted_keys :: "(string \<times> 'a) list \<Rightarrow> string list" where
  "sorted_keys ms = sort (remdups (map fst ms))"

definition last_value :: "(string \<times> 'a) list \<Rightarrow> string \<Rightarrow> 'a" where
  "last_value ms k = the (map_of (rev ms) k)"

lemma sorted_keys_strict: "sorted_wrt (<) (sorted_keys ms)"
  by (simp add: sorted_keys_def strict_sorted_iff)

lemma set_sorted_keys [simp]: "set (sorted_keys ms) = fst ` set ms"
  by (simp add: sorted_keys_def)

lemma sorted_keys_unique:
  assumes "distinct ks" "set ks = fst ` set ms"
  shows "sort ks = sorted_keys ms"
  using assms by (intro sorted_distinct_set_unique) (simp_all add: sorted_keys_def)

lemma last_value_in: "k \<in> fst ` set ms \<Longrightarrow> (k, last_value ms k) \<in> set ms"
proof -
  assume "k \<in> fst ` set ms"
  then have "map_of (rev ms) k \<noteq> None" by (simp add: map_of_eq_None_iff)
  then obtain y where y: "map_of (rev ms) k = Some y" by blast
  from map_of_SomeD [OF this] show ?thesis by (simp add: last_value_def y)
qed

lemma map_of_values: "map_of (map (\<lambda>m. (fst m, f (snd m))) xs) = map_option f \<circ> map_of xs"
  by (induction xs) (auto simp add: fun_eq_iff)

lemma last_value_map:
  assumes "k \<in> fst ` set ms"
  shows "last_value (map (\<lambda>m. (fst m, f (snd m))) ms) k = f (last_value ms k)"
proof -
  have "map_of (rev ms) k \<noteq> None" using assms by (simp add: map_of_eq_None_iff)
  moreover have "map_of (rev (map (\<lambda>m. (fst m, f (snd m))) ms)) = map_option f \<circ> map_of (rev ms)"
    using map_of_values [of f "rev ms"] by (simp add: rev_map)
  ultimately show ?thesis by (auto simp add: last_value_def)
qed

lemma sorted_keys_map [simp]: "sorted_keys (map (\<lambda>m. (fst m, f (snd m))) ms) = sorted_keys ms"
  by (simp add: sorted_keys_def comp_def)

text \<open>On a list with strictly increasing keys both are what they read.\<close>

lemma sorted_keys_strict_id: "sorted_wrt (<) (map fst ms) \<Longrightarrow> sorted_keys ms = map fst ms"
  by (simp add: sorted_keys_def strict_sorted_iff sorted_sort_id distinct_remdups_id)

lemma last_value_distinct:
  assumes "distinct (map fst ms)" "m \<in> set ms"
  shows "last_value ms (fst m) = snd m"
proof -
  have "distinct (map fst (rev ms))" using assms(1) by (simp flip: rev_map)
  then have "map_of (rev ms) (fst m) = Some (snd m)" using assms(2) by (intro map_of_is_SomeI) simp_all
  then show ?thesis by (simp add: last_value_def)
qed

section \<open>Canonical trees\<close>

definition canon_number :: "string \<Rightarrow> string option" where
  "canon_number n = map_option format_float (ParseFloat n)"

fun canon :: "json \<Rightarrow> jtree option" where
  "canon JNull = Some TNull"
| "canon (JBool b) = Some (TBool b)"
| "canon (JNum n) = map_option TNum (canon_number n)"
| "canon (JStr s) = Some (TStr s)"
| "canon (JArr vs) = map_option TArr (those (map (\<lambda>v. canon (snd v)) vs))"
| "canon (JObj ms) =
     (let cs = map (\<lambda>m. (fst m, canon (snd (snd m)))) ms in
      map_option TObj (those (map (\<lambda>k. map_option (Pair k) (last_value cs k)) (sorted_keys cs))))"

fun canonical :: "jtree \<Rightarrow> bool" where
  "canonical (TNum n) = (canon_number n = Some n)"
| "canonical (TStr s) = utf8_valid s"
| "canonical (TArr ts) = list_all canonical ts"
| "canonical (TObj ms) = (sorted_wrt (<) (map fst ms) \<and>
     list_all (\<lambda>m. utf8_valid (fst m) \<and> canonical (snd m)) ms)"
| "canonical _ = True"

fun json_depth :: "json \<Rightarrow> nat" where
  "json_depth (JArr vs) = Suc (foldr max (map (\<lambda>v. json_depth (snd v)) vs) 0)"
| "json_depth (JObj ms) = Suc (foldr max (map (\<lambda>m. json_depth (snd (snd m))) ms) 0)"
| "json_depth _ = 0"

lemma canon_number_idem: "canon_number n = Some m \<Longrightarrow> canon_number m = Some m"
proof -
  assume "canon_number n = Some m"
  then obtain neg x where x: "ParseFloat n = Some (neg, x)" "m = format_float (neg, x)"
    by (auto simp add: canon_number_def)
  then show ?thesis
    using ParseFloat_format(1) [OF ParseFloat_is_double [OF x(1)], of neg]
    by (simp add: canon_number_def)
qed

lemma canon_number_pnum: "canon_number n = Some n \<Longrightarrow> pnum n = Some (n, [])"
proof -
  assume "canon_number n = Some n"
  then obtain neg x where x: "ParseFloat n = Some (neg, x)" "format_float (neg, x) = n"
    by (auto simp add: canon_number_def)
  then show ?thesis
    using ParseFloat_format(2) [OF ParseFloat_is_double [OF x(1)], of neg] by simp
qed

text \<open>The object of a canonical tree in terms of its members.\<close>

lemma canon_object:
  "canon (JObj ms) = map_option TObj
     (those (map (\<lambda>k. map_option (Pair k) (canon (snd (last_value ms k)))) (sorted_keys ms)))"
proof -
  let ?cs = "map (\<lambda>m. (fst m, canon (snd (snd m)))) ms"
  have keys: "sorted_keys ?cs = sorted_keys ms"
    using sorted_keys_map [of "\<lambda>v. canon (snd v)" ms] by simp
  have "last_value ?cs k = canon (snd (last_value ms k))" if "k \<in> set (sorted_keys ms)" for k
    using last_value_map [of k ms "\<lambda>v. canon (snd v)"] that by simp
  then have "those (map (\<lambda>k. map_option (Pair k) (last_value ?cs k)) (sorted_keys ms)) =
      those (map (\<lambda>k. map_option (Pair k) (canon (snd (last_value ms k)))) (sorted_keys ms))"
    by (metis (no_types, lifting) map_eq_conv)
  then show ?thesis by (simp add: Let_def keys)
qed

lemma canon_JObj:
  "canon (JObj ms) = Some t \<longleftrightarrow>
     (\<exists>ts. t = TObj ts \<and> map fst ts = sorted_keys ms \<and>
        (\<forall>m\<in>set ts. canon (snd (last_value ms (fst m))) = Some (snd m)))"
proof -
  have "list_all2 (\<lambda>k y. map_option (Pair k) (canon (snd (last_value ms k))) = Some y) ks ts \<longleftrightarrow>
      map fst ts = ks \<and> (\<forall>m\<in>set ts. canon (snd (last_value ms (fst m))) = Some (snd m))" for ks ts
    by (induction ks arbitrary: ts) (auto simp add: list_all2_Cons1 Cons_eq_map_conv map_eq_Cons_conv)
  then show ?thesis unfolding canon_object by (auto simp add: those_map_Some)
qed

lemma canon_canonical: "canon v = Some t \<Longrightarrow> json_utf8 v \<Longrightarrow> canonical t"
proof (induction v arbitrary: t)
  case (JNum n)
  then show ?case by (auto dest: canon_number_idem)
next
  case (JArr vs)
  then obtain ts where ts: "t = TArr ts" "list_all2 (\<lambda>v t. canon (snd v) = Some t) vs ts"
    by (auto simp add: those_map_Some)
  have "canonical u" if "u \<in> set ts" for u
  proof -
    obtain v where "v \<in> set vs" "canon (snd v) = Some u"
      using list_all2_member [OF ts(2) \<open>u \<in> set ts\<close>] by blast
    then show ?thesis using JArr by (auto simp add: list_all_iff snds.simps)
  qed
  then show ?case by (simp add: ts list_all_iff)
next
  case (JObj ms)
  then obtain ts where ts: "t = TObj ts" "map fst ts = sorted_keys ms"
      "\<forall>m\<in>set ts. canon (snd (last_value ms (fst m))) = Some (snd m)"
    by (auto simp only: canon_JObj)
  have "utf8_valid (fst m) \<and> canonical (snd m)" if m: "m \<in> set ts" for m
  proof -
    have "fst m \<in> set (sorted_keys ms)" using m by (simp flip: ts(2))
    then have v: "(fst m, last_value ms (fst m)) \<in> set ms" by (intro last_value_in) simp
    let ?v = "last_value ms (fst m)"
    have "json_utf8 (snd ?v)" "utf8_valid (fst m)"
      using JObj.prems(2) v by (auto simp add: list_all_iff)
    moreover have "canonical (snd m)" if "json_utf8 (snd ?v)"
      by (rule JObj.IH [OF v, of ?v "snd ?v"])
        (use ts(3) m that in \<open>auto simp add: snds.simps\<close>)
    ultimately show ?thesis by simp
  qed
  then show ?case by (simp add: ts(1,2) sorted_keys_strict list_all_iff)
qed auto

lemma le_foldr_max: "x \<in> set xs \<Longrightarrow> x \<le> foldr max xs (0 :: nat)"
  using foldr_max_le [of xs "foldr max xs 0"] by blast

lemma canon_depth: "canon v = Some t \<Longrightarrow> tree_depth t \<le> json_depth v"
proof (induction v arbitrary: t)
  case (JArr vs)
  then obtain ts where ts: "t = TArr ts" "list_all2 (\<lambda>v t. canon (snd v) = Some t) vs ts"
    by (auto simp add: those_map_Some)
  let ?d = "foldr max (map (\<lambda>v. json_depth (snd v)) vs) 0"
  have "tree_depth u \<le> ?d" if "u \<in> set ts" for u
  proof -
    obtain v where v: "v \<in> set vs" "canon (snd v) = Some u"
      using list_all2_member [OF ts(2) \<open>u \<in> set ts\<close>] by blast
    then have "tree_depth u \<le> json_depth (snd v)" using JArr.IH by (auto simp add: snds.simps)
    moreover have "json_depth (snd v) \<le> ?d" using v by (intro le_foldr_max) auto
    ultimately show ?thesis by simp
  qed
  then show ?case by (simp add: ts foldr_max_le)
next
  case (JObj ms)
  then obtain ts where ts: "t = TObj ts" "map fst ts = sorted_keys ms"
      "\<forall>m\<in>set ts. canon (snd (last_value ms (fst m))) = Some (snd m)"
    by (auto simp only: canon_JObj)
  let ?d = "foldr max (map (\<lambda>m. json_depth (snd (snd m))) ms) 0"
  have "tree_depth (snd m) \<le> ?d" if m: "m \<in> set ts" for m
  proof -
    have "fst m \<in> set (sorted_keys ms)" using m by (simp flip: ts(2))
    then have v: "(fst m, last_value ms (fst m)) \<in> set ms" by (intro last_value_in) simp
    let ?v = "last_value ms (fst m)"
    have "tree_depth (snd m) \<le> json_depth (snd ?v)"
      by (rule JObj.IH [OF v, of ?v "snd ?v"]) (use ts(3) m in \<open>auto simp add: snds.simps\<close>)
    moreover have "json_depth (snd ?v) \<le> ?d" using v by (intro le_foldr_max) force
    ultimately show ?thesis by simp
  qed
  then show ?case by (simp add: ts(1) foldr_max_le)
qed auto

lemma canonical_ok: "canonical t \<Longrightarrow> tree_ok t \<and> tree_utf8 t \<and> tree_sorted t"
  by (induction t) (auto simp add: list_all_iff canon_number_pnum snds.simps)

text \<open>A canonical tree is its own canonical form.\<close>

lemma canon_annot: "canonical t \<Longrightarrow> canon (annot t) = Some t"
proof (induction t)
  case (TArr ts)
  then show ?case
    using those_map_id [of ts "\<lambda>t. canon (annot t)" "\<lambda>t. t"] by (simp add: list_all_iff comp_def)
next
  case (TObj ms)
  let ?ms = "map (\<lambda>m. (clean (fst m), jprint (snd m), annot (snd m))) ms"
  have keys: "map fst ?ms = map fst ms" using TObj.prems by (auto simp add: list_all_iff)
  then have sorted: "sorted_wrt (<) (map fst ?ms)" using TObj.prems by (simp only: canonical.simps)
  then have "distinct (map fst ?ms)" by (simp only: strict_sorted_iff)
  note last = last_value_distinct [OF this]
  have "canon (snd (last_value ?ms (fst m))) = Some (snd m)" if m: "m \<in> set ms" for m
  proof -
    have "clean (fst m) = fst m" using TObj.prems m by (simp add: list_all_iff)
    moreover have "(clean (fst m), jprint (snd m), annot (snd m)) \<in> set ?ms" using m by auto
    ultimately have "last_value ?ms (fst m) = (jprint (snd m), annot (snd m))" using last by fastforce
    moreover have "canon (annot (snd m)) = Some (snd m)"
      using TObj.IH [OF m, of "snd m"] TObj.prems m by (auto simp add: list_all_iff snds.simps)
    ultimately show ?thesis by simp
  qed
  moreover have "sorted_keys ?ms = map fst ms" using sorted_keys_strict_id [OF sorted] keys by simp
  ultimately have "canon (JObj ?ms) = Some (TObj ms)" by (simp only: canon_JObj) blast
  then show ?case by simp
qed auto

section \<open>Canonical text\<close>

lemma elems_depth:
  assumes "\<And>s v r. pv s = Some (v, r) \<Longrightarrow> json_depth v \<le> d"
  shows "elems n pv s = Some (vs, t) \<Longrightarrow> list_all (\<lambda>v. json_depth (snd v) \<le> d) vs"
  by (induction n arbitrary: s vs)
     (auto simp add: Let_def assms split: option.splits list.splits if_splits)

lemma members_depth:
  assumes "\<And>s v r. pv s = Some (v, r) \<Longrightarrow> json_depth v \<le> d"
  shows "members n pv s = Some (ms, t) \<Longrightarrow> list_all (\<lambda>m. json_depth (snd (snd m)) \<le> d) ms"
  by (induction n arbitrary: s ms)
     (auto simp add: Let_def assms split: option.splits list.splits if_splits)

lemma pscalar_depth: "pscalar s = Some (v, t) \<Longrightarrow> json_depth v = 0"
  by (cases s) (auto simp add: pscalar_def dest: pword_value split: if_splits)

lemma pval_depth: "pval d s = Some (v, t) \<Longrightarrow> json_depth v \<le> d"
proof (induction d arbitrary: s v t)
  case 0
  then show ?case by (cases s) (auto dest: pscalar_depth split: if_splits)
next
  case (Suc d)
  show ?case
    using Suc.prems
    by (cases s)
       (auto simp add: parray_def pobject_def foldr_max_le list_all_iff simp del: elems.simps members.simps
         split: if_splits list.splits dest: pscalar_depth
         dest!: elems_depth [of "pval d" d, rotated] members_depth [of "pval d" d, rotated] Suc.IH)
qed

lemma parse_json_depth: "parse_json s = Some v \<Longrightarrow> json_depth v \<le> maxNestingDepth"
  by (auto simp add: parse_json_def dest: pval_depth split: option.splits if_splits)

text \<open>The text of a canonical tree that is not nested too deep.\<close>

definition canonical_text :: "jtree \<Rightarrow> string \<Rightarrow> bool" where
  "canonical_text t b \<longleftrightarrow> canonical t \<and> tree_depth t \<le> maxNestingDepth \<and> b = jprint t"

lemma canonical_printable: "canonical t \<Longrightarrow> tree_depth t \<le> maxNestingDepth \<Longrightarrow> printable t"
  by (simp add: printable_def canonical_ok)

lemma parsed_canonical:
  "parse_json s = Some v \<Longrightarrow> canon v = Some t \<Longrightarrow> canonical_text t (jprint t)"
  using parse_json_utf8 [of s v] canon_canonical [of v t] canon_depth [of v t] parse_json_depth [of s v]
  by (simp add: canonical_text_def)

lemma canonical_text_parse: "canonical_text t b \<Longrightarrow> parse_json b = Some (annot t)"
  by (simp add: canonical_text_def canonical_ok parse_jprint)

lemma canonical_text_inject: "canonical_text t b \<Longrightarrow> canonical_text u c \<Longrightarrow> b = c \<longleftrightarrow> t = u"
  using json_doc.enc_inject [of t u] by (auto simp add: canonical_text_def canonical_printable)

lemma canonical_text_compact: "canonical_text t b \<Longrightarrow> compact b = Some b"
  by (simp add: canonical_text_def canonical_ok compact_printed)

end
