(* ===== verification/GoTrim.thy ===== *)
theory GoTrim
  imports JsonLocal GoJsonEnc
begin

text \<open>
  \<open>bytes.TrimSpace\<close>: the encodings of the space runes of \<open>unicode.IsSpace\<close> are removed from
  both ends. It removes at least the white space of JSON (\<open>TrimSpace_ends\<close>), and nothing of a text
  that starts and ends with a printing ASCII character (\<open>TrimSpace_solid\<close>).
\<close>

definition space_runes :: "nat list" where
  "space_runes = [9, 10, 11, 12, 13, 32, 133, 160, 5760] @ [8192..<8203] @ [8232, 8233, 8239, 8287, 12288]"

definition space_texts :: "string list" where
  "space_texts = map encode_rune space_runes"

function trim_words :: "string list \<Rightarrow> string \<Rightarrow> string" where
  "trim_words ws s =
     (case find (\<lambda>w. w \<noteq> [] \<and> prefix w s) ws of
        None \<Rightarrow> s
      | Some w \<Rightarrow> trim_words ws (drop (length w) s))"
  by pat_completeness auto
termination
  by (relation "measure (length \<circ> snd)") (auto simp add: find_Some_iff prefix_def)

declare trim_words.simps [simp del]

definition trim_left :: "string \<Rightarrow> string" where
  "trim_left s = trim_words space_texts s"

definition trim_right :: "string \<Rightarrow> string" where
  "trim_right s = rev (trim_words (map rev space_texts) (rev s))"

definition TrimSpace :: "string \<Rightarrow> string" where
  "TrimSpace s = trim_right (trim_left s)"

lemma trim_words_none:
  assumes "\<forall>w\<in>set ws. w = [] \<or> \<not> prefix w s"
  shows "trim_words ws s = s"
proof -
  have "find (\<lambda>w. w \<noteq> [] \<and> prefix w s) ws = None" using assms by (auto simp add: find_None_iff)
  then show ?thesis by (subst trim_words.simps) simp
qed

lemma trim_words_clean: "w \<in> set ws \<Longrightarrow> w \<noteq> [] \<Longrightarrow> \<not> prefix w (trim_words ws s)"
proof (induction ws s rule: trim_words.induct)
  case (1 ws s)
  show ?case
  proof (cases "find (\<lambda>w. w \<noteq> [] \<and> prefix w s) ws")
    case None
    moreover from this have "trim_words ws s = s" by (subst trim_words.simps) simp
    ultimately show ?thesis using 1(2,3) by (auto simp add: find_None_iff)
  next
    case (Some v)
    then show ?thesis using 1 by (subst trim_words.simps) simp
  qed
qed

lemma trim_words_suffix: "suffix (trim_words ws s) s"
proof (induction ws s rule: trim_words.induct)
  case (1 ws s)
  show ?case
  proof (cases "find (\<lambda>w. w \<noteq> [] \<and> prefix w s) ws")
    case None
    then show ?thesis by (subst trim_words.simps) simp
  next
    case (Some v)
    then show ?thesis using 1
      by (subst trim_words.simps) (metis option.simps(5) suffix_drop suffix_order.trans)
  qed
qed

lemma space_texts_ends: "w \<in> set space_texts \<Longrightarrow> w \<noteq> [] \<and> \<not> graphic (hd w) \<and> \<not> graphic (last w)"
  by (auto simp add: space_texts_def space_runes_def upt_rec graphic_def encode_rune_def
      encode_scalar_def scalar_def)

lemma space_texts_json:
  assumes "is_space c"
  shows "[c] \<in> set space_texts"
proof -
  have "ord_of c \<in> set space_runes" "ord_of c < 128"
    using assms by (auto simp add: is_space_def space_runes_def)
  moreover from this have "[c] = encode_rune (ord_of c)" by (simp add: encode_rune_ascii)
  ultimately show ?thesis unfolding space_texts_def set_map by blast
qed

lemma TrimSpace_solid: "solid s \<Longrightarrow> TrimSpace s = s"
proof -
  assume s: "solid s"
  have "trim_left s = s"
    unfolding trim_left_def
    by (rule trim_words_none) (use s space_texts_ends in \<open>force simp add: solid_def prefix_def\<close>)
  moreover have "trim_right s = s"
  proof -
    have "trim_words (map rev space_texts) (rev s) = rev s"
    proof (rule trim_words_none, intro ballI)
      fix w
      assume "w \<in> set (map rev space_texts)"
      then obtain v where v: "w = rev v" "v \<in> set space_texts" by auto
      have "\<not> suffix v s"
        using s space_texts_ends [OF v(2)] by (auto simp add: solid_def suffix_def)
      then show "w = [] \<or> \<not> prefix w (rev s)" by (simp add: v(1) suffix_to_prefix)
    qed
    then show ?thesis by (simp add: trim_right_def)
  qed
  ultimately show ?thesis by (simp add: TrimSpace_def)
qed

lemma trim_right_prefix: "prefix (trim_right s) s"
  using trim_words_suffix [of "map rev space_texts" "rev s"]
  by (simp add: trim_right_def suffix_to_prefix)

lemma TrimSpace_ends:
  assumes "TrimSpace s \<noteq> []"
  shows "\<not> is_space (hd (TrimSpace s))" "\<not> is_space (last (TrimSpace s))"
proof -
  obtain u where u: "trim_left s = TrimSpace s @ u"
    using trim_right_prefix [of "trim_left s"] by (auto simp add: TrimSpace_def prefix_def)
  show "\<not> is_space (hd (TrimSpace s))"
  proof
    assume "is_space (hd (TrimSpace s))"
    then have "\<not> prefix [hd (TrimSpace s)] (trim_left s)"
      unfolding trim_left_def by (intro trim_words_clean space_texts_json) simp_all
    with assms show False by (simp add: u) (metis append_Cons append_Nil list.collapse prefixI)
  qed
  show "\<not> is_space (last (TrimSpace s))"
  proof
    let ?r = "trim_words (map rev space_texts) (rev (trim_left s))"
    assume sp: "is_space (last (TrimSpace s))"
    have r: "TrimSpace s = rev ?r" by (simp add: TrimSpace_def trim_right_def)
    have "rev [hd ?r] \<in> set space_texts" using sp assms by (simp add: r last_rev space_texts_json)
    then have "[hd ?r] \<in> set (map rev space_texts)" by force
    then have "\<not> prefix [hd ?r] ?r" by (rule trim_words_clean) simp
    with assms show False by (simp add: r) (metis append_Cons append_Nil list.collapse prefixI)
  qed
qed

lemma length_TrimSpace: "length (TrimSpace s) \<le> length s"
proof -
  have "length (TrimSpace s) \<le> length (trim_left s)"
    using trim_right_prefix [of "trim_left s"] by (simp add: TrimSpace_def prefix_length_le)
  also have "\<dots> \<le> length s"
    using trim_words_suffix [of space_texts s] by (simp add: trim_left_def suffix_length_le)
  finally show ?thesis .
qed

end
