(* ===== verification/CanonicalJson.thy ===== *)
theory CanonicalJson
  imports CanonTree GoTrim "HOL-Library.AList"
begin

text \<open>
  \<open>canonicaljson/canonicaljson.go\<close>. The bytes of a JSON document are a \<open>string\<close>. A Go map with
  string keys is an association list with distinct keys: its iteration order is not specified and
  the code sorts the keys before it uses them. The three functions call each other on the texts
  \<open>json.Unmarshal\<close> keeps of the values, so every level of the document is parsed again; the
  recursion ends because such a text is shorter than its document (\<open>parse_json_pieces\<close>).

  \<open>json.Marshal\<close> on the caller's value is the parameter \<open>jm\<close>: the code is generic in that type.
\<close>

section \<open>Errors and Go maps\<close>

datatype cerr = CErrMarshal | CErrMarshalSigning | CErrNotObject | CErrEmpty | CErrJSON

type_synonym rawmap = "(string \<times> string) list"

definition go_map :: "(string \<times> 'a) list \<Rightarrow> (string \<times> 'a) list" where
  "go_map ms = fold (\<lambda>m. AList.update (fst m) (snd m)) ms []"

definition lookup :: "rawmap \<Rightarrow> string \<Rightarrow> string" where
  "lookup m k = (case map_of m k of None \<Rightarrow> [] | Some raw \<Rightarrow> raw)"

lemma go_map_of: "map_of (go_map ms) = map_of (rev ms)"
proof -
  have "map_of (fold (\<lambda>m. AList.update (fst m) (snd m)) ms al) = map_of al ++ map_of (rev ms)" for al
    by (induction ms arbitrary: al) (auto simp add: fun_eq_iff update_conv' map_add_def split: option.split)
  then show ?thesis by (simp add: go_map_def)
qed

lemma go_map_distinct: "distinct (map fst (go_map ms))"
proof -
  have "distinct (map fst al) \<Longrightarrow>
      distinct (map fst (fold (\<lambda>m. AList.update (fst m) (snd m)) ms al))" for al
    by (induction ms arbitrary: al) (simp_all add: distinct_update)
  then show ?thesis by (simp add: go_map_def)
qed

lemma go_map_set: "set (go_map ms) \<subseteq> set ms"
proof
  fix x
  assume "x \<in> set (go_map ms)"
  then have "map_of (go_map ms) (fst x) = Some (snd x)"
    by (intro map_of_is_SomeI) (simp_all add: go_map_distinct)
  then have "map_of (rev ms) (fst x) = Some (snd x)" by (simp add: go_map_of)
  from map_of_SomeD [OF this] show "x \<in> set ms" by simp
qed

section \<open>The code\<close>

text \<open>
  \<open>json.Unmarshal\<close> into \<open>map[string]json.RawMessage\<close> (\<open>null\<close> gives a nil map), into
  \<open>[]json.RawMessage\<close>, and of a scalar into \<open>any\<close>; \<open>json.Marshal\<close> of that scalar.
\<close>

definition unmarshal_object :: "string \<Rightarrow> rawmap option" where
  "unmarshal_object raw =
     (case parse_json raw of
        Some (JObj ms) \<Rightarrow> Some (go_map (map (\<lambda>m. (fst m, fst (snd m))) ms))
      | Some JNull \<Rightarrow> Some []
      | _ \<Rightarrow> None)"

definition unmarshal_array :: "string \<Rightarrow> string list option" where
  "unmarshal_array raw =
     (case parse_json raw of
        Some (JArr vs) \<Rightarrow> Some (map fst vs)
      | Some JNull \<Rightarrow> Some []
      | _ \<Rightarrow> None)"

datatype scalar = SNil | SBool bool | SFloat "bool \<times> double" | SString string

definition unmarshal_scalar :: "string \<Rightarrow> scalar option" where
  "unmarshal_scalar raw =
     (case parse_json raw of
        Some JNull \<Rightarrow> Some SNil
      | Some (JBool b) \<Rightarrow> Some (SBool b)
      | Some (JNum n) \<Rightarrow> map_option SFloat (ParseFloat n)
      | Some (JStr s) \<Rightarrow> Some (SString s)
      | _ \<Rightarrow> None)"

fun marshal_scalar :: "scalar \<Rightarrow> string" where
  "marshal_scalar SNil = ''null''"
| "marshal_scalar (SBool b) = (if b then ''true'' else ''false'')"
| "marshal_scalar (SFloat x) = format_float x"
| "marshal_scalar (SString s) = quote s"

definition longest :: "string list \<Rightarrow> nat" where
  "longest ss = foldr max (map length ss) 0"

lemma longest_le: "s \<in> set ss \<Longrightarrow> length s \<le> longest ss"
  unfolding longest_def by (intro le_foldr_max) simp

lemma longest_less: "\<forall>s\<in>set ss. length s < n \<Longrightarrow> 0 < n \<Longrightarrow> longest ss < n"
  using foldr_max_le [of "map length ss" "n - 1"] by (force simp add: longest_def)

lemma lookup_le: "length (lookup m k) \<le> longest (map snd m)"
  by (auto simp add: lookup_def longest_le dest!: map_of_SomeD split: option.split)
     (metis longest_le image_eqI set_map snd_conv)

lemma unmarshal_object_shorter:
  assumes "unmarshal_object raw = Some m" "raw \<noteq> []"
  shows "longest (map snd m) < length raw"
proof (rule longest_less)
  show "\<forall>s\<in>set (map snd m). length s < length raw"
  proof (cases "parse_json raw")
    case (Some v)
    then show ?thesis
      using assms(1) parse_json_pieces(2) [of raw] go_map_set
      by (cases v) (force simp add: unmarshal_object_def list_all_iff piece_def)+
  qed (use assms in \<open>simp add: unmarshal_object_def\<close>)
qed (use assms(2) in simp)

lemma unmarshal_array_shorter:
  assumes "unmarshal_array raw = Some arr" "raw \<noteq> []"
  shows "longest arr < length raw"
proof (rule longest_less)
  show "\<forall>s\<in>set arr. length s < length raw"
  proof (cases "parse_json raw")
    case (Some v)
    then show ?thesis
      using assms(1) parse_json_pieces(1) [of raw]
      by (cases v) (auto simp add: unmarshal_array_def list_all_iff piece_def)
  qed (use assms in \<open>simp add: unmarshal_array_def\<close>)
qed (use assms(2) in simp)

function canonicaliseRaw :: "string \<Rightarrow> cerr + string"
  and serialiseObject :: "rawmap \<Rightarrow> cerr + string"
  and serialiseArray :: "string list \<Rightarrow> cerr + string"
where
  "canonicaliseRaw raw0 =
     (let raw = TrimSpace raw0 in
      case raw of
        [] \<Rightarrow> Inl CErrEmpty
      | c # _ \<Rightarrow>
          if c = CHR ''{'' then
            (case unmarshal_object raw of None \<Rightarrow> Inl CErrJSON | Some m \<Rightarrow> serialiseObject m)
          else if c = CHR ''['' then
            (case unmarshal_array raw of None \<Rightarrow> Inl CErrJSON | Some arr \<Rightarrow> serialiseArray arr)
          else
            (case unmarshal_scalar raw of None \<Rightarrow> Inl CErrJSON | Some v \<Rightarrow> Inr (marshal_scalar v)))"
| "serialiseObject m =
     bindE (mapE (\<lambda>k. bindE (canonicaliseRaw (lookup m k)) (\<lambda>b. Inr (k, b))) (sort (map fst m)))
       (\<lambda>kvs. Inr (enc_object kvs))"
| "serialiseArray arr = bindE (mapE canonicaliseRaw arr) (\<lambda>bs. Inr (enc_array bs))"
  by pat_completeness auto

termination
proof (relation "measure (case_sum (\<lambda>raw. 2 * length raw)
    (case_sum (\<lambda>m. 2 * longest (map snd m) + 1) (\<lambda>arr. 2 * longest arr + 1)))")
  fix raw0 raw :: string and c r m
  assume r: "raw = TrimSpace raw0" "raw = c # r" "unmarshal_object raw = Some m"
  then have "raw \<noteq> []" by (metis list.distinct(1))
  with r(3) have "longest (map snd m) < length raw" by (rule unmarshal_object_shorter)
  then have "longest (map snd m) < length raw0" using length_TrimSpace [of raw0] r(1) by simp
  then show "(Inr (Inl m), Inl raw0) \<in> measure (case_sum (\<lambda>raw. 2 * length raw)
    (case_sum (\<lambda>m. 2 * longest (map snd m) + 1) (\<lambda>arr. 2 * longest arr + 1)))" by simp
next
  fix raw0 raw :: string and c r arr
  assume r: "raw = TrimSpace raw0" "raw = c # r" "unmarshal_array raw = Some arr"
  then have "raw \<noteq> []" by (metis list.distinct(1))
  with r(3) have "longest arr < length raw" by (rule unmarshal_array_shorter)
  then have "longest arr < length raw0" using length_TrimSpace [of raw0] r(1) by simp
  then show "(Inr (Inr arr), Inl raw0) \<in> measure (case_sum (\<lambda>raw. 2 * length raw)
    (case_sum (\<lambda>m. 2 * longest (map snd m) + 1) (\<lambda>arr. 2 * longest arr + 1)))" by simp
next
  fix m k
  show "(Inl (lookup m k), Inr (Inl m)) \<in> measure (case_sum (\<lambda>raw. 2 * length raw)
    (case_sum (\<lambda>m. 2 * longest (map snd m) + 1) (\<lambda>arr. 2 * longest arr + 1)))"
    using lookup_le [of m k] by simp
next
  fix arr :: "string list" and raw
  assume "raw \<in> set arr"
  then show "(Inl raw, Inr (Inr arr)) \<in> measure (case_sum (\<lambda>raw. 2 * length raw)
    (case_sum (\<lambda>m. 2 * longest (map snd m) + 1) (\<lambda>arr. 2 * longest arr + 1)))"
    using longest_le [of raw arr] by simp
qed simp

declare canonicaliseRaw.simps [simp del] serialiseObject.simps [simp del] serialiseArray.simps [simp del]

definition Marshal :: "('v \<Rightarrow> string option) \<Rightarrow> 'v \<Rightarrow> cerr + string" where
  "Marshal jm v = (case jm v of None \<Rightarrow> Inl CErrMarshal | Some raw \<Rightarrow> canonicaliseRaw raw)"

definition MarshalForSigning :: "('v \<Rightarrow> string option) \<Rightarrow> 'v \<Rightarrow> cerr + string" where
  "MarshalForSigning jm v =
     (case jm v of
        None \<Rightarrow> Inl CErrMarshalSigning
      | Some raw \<Rightarrow>
          (case unmarshal_object raw of
             None \<Rightarrow> Inl CErrNotObject
           | Some m \<Rightarrow>
               serialiseObject (AList.delete ''pubkey_b64'' (AList.delete ''signature'' m))))"

section \<open>The canonical form\<close>

definition result :: "jtree option \<Rightarrow> cerr + string" where
  "result t = (case t of None \<Rightarrow> Inl CErrJSON | Some t \<Rightarrow> Inr (jprint t))"

lemma result_simps [simp]: "result None = Inl CErrJSON" "result (Some t) = Inr (jprint t)"
  by (simp_all add: result_def)

lemma result_eq_Inr: "result t = Inr b \<longleftrightarrow> (\<exists>u. t = Some u \<and> b = jprint u)"
  by (cases t) auto

text \<open>A Go map that holds the last values of a member list.\<close>

definition represents :: "rawmap \<Rightarrow> (string \<times> string \<times> json) list \<Rightarrow> bool" where
  "represents m ms \<longleftrightarrow> distinct (map fst m) \<and> map_of m = map_of (rev (map (\<lambda>m. (fst m, fst (snd m))) ms))"

lemma represents_go_map: "represents (go_map (map (\<lambda>m. (fst m, fst (snd m))) ms)) ms"
  by (simp add: represents_def go_map_distinct go_map_of)

lemma map_of_filter_key: "map_of (filter (\<lambda>m. fst m \<noteq> k) xs) = (map_of xs)(k := None)"
  by (induction xs) (auto simp add: fun_eq_iff)

lemma represents_delete:
  assumes "represents m ms"
  shows "represents (AList.delete k m) (filter (\<lambda>m. fst m \<noteq> k) ms)"
proof -
  have "rev (map (\<lambda>m. (fst m, fst (snd m))) (filter (\<lambda>m. fst m \<noteq> k) ms)) =
      filter (\<lambda>m. fst m \<noteq> k) (rev (map (\<lambda>m. (fst m, fst (snd m))) ms))"
    by (induction ms) auto
  with assms show ?thesis
    by (simp add: represents_def map_of_filter_key delete_conv' distinct_delete)
qed

lemma represents_keys:
  assumes "represents m ms"
  shows "sort (map fst m) = sorted_keys ms"
proof (rule sorted_keys_unique)
  have "fst ` set m = dom (map_of m)" by (simp add: dom_map_of_conv_image_fst)
  also have "\<dots> = fst ` set ms"
    using assms by (simp add: represents_def dom_map_of_conv_image_fst image_image)
  finally show "set (map fst m) = fst ` set ms" by simp
qed (use assms in \<open>simp add: represents_def\<close>)

lemma represents_lookup:
  assumes "represents m ms" "k \<in> fst ` set ms"
  shows "lookup m k = fst (last_value ms k)"
proof -
  have "map_of (rev ms) k \<noteq> None" using assms(2) by (simp add: map_of_eq_None_iff)
  moreover have "map_of m k = map_option fst (map_of (rev ms) k)"
    using assms(1) map_of_values [of fst "rev ms"] by (simp add: represents_def rev_map)
  ultimately show ?thesis by (auto simp add: lookup_def last_value_def)
qed

lemma serialiseObject_canon:
  assumes "represents m ms"
    and "\<And>x. x \<in> set ms \<Longrightarrow> canonicaliseRaw (fst (snd x)) = result (canon (snd (snd x)))"
  shows "serialiseObject m = result (canon (JObj ms))"
proof -
  let ?g = "\<lambda>k. map_option (Pair k) (canon (snd (last_value ms k)))"
  have "mapE (\<lambda>k. bindE (canonicaliseRaw (lookup m k)) (\<lambda>b. Inr (k, b))) (sorted_keys ms) =
      (case those (map ?g (sorted_keys ms)) of
         None \<Rightarrow> Inl CErrJSON | Some ts \<Rightarrow> Inr (map (\<lambda>t. (fst t, jprint (snd t))) ts))"
  proof (rule mapE_those)
    fix k
    assume "k \<in> set (sorted_keys ms)"
    then have k: "k \<in> fst ` set ms" by simp
    have "canonicaliseRaw (lookup m k) = result (canon (snd (last_value ms k)))"
      using assms(2) [OF last_value_in [OF k]] represents_lookup [OF assms(1) k] by simp
    then show "bindE (canonicaliseRaw (lookup m k)) (\<lambda>b. Inr (k, b)) =
        (case ?g k of None \<Rightarrow> Inl CErrJSON | Some t \<Rightarrow> Inr (fst t, jprint (snd t)))"
      by (cases "canon (snd (last_value ms k))") simp_all
  qed
  then show ?thesis
    unfolding serialiseObject.simps represents_keys [OF assms(1)] canon_object
    by (cases "those (map ?g (sorted_keys ms))") simp_all
qed

lemma serialiseArray_canon:
  assumes "\<And>v. v \<in> set vs \<Longrightarrow> canonicaliseRaw (fst v) = result (canon (snd v))"
  shows "serialiseArray (map fst vs) = result (canon (JArr vs))"
proof -
  have "mapE canonicaliseRaw (map fst vs) = mapE (\<lambda>v. canonicaliseRaw (fst v)) vs"
    by (induction vs) simp_all
  also have "\<dots> = (case those (map (\<lambda>v. canon (snd v)) vs) of
      None \<Rightarrow> Inl CErrJSON | Some ts \<Rightarrow> Inr (map jprint ts))"
    by (rule mapE_those) (use assms in \<open>simp add: result_def\<close>)
  finally show ?thesis
    unfolding serialiseArray.simps
    by (cases "those (map (\<lambda>v. canon (snd v)) vs)") simp_all
qed

lemma scalar_canon:
  assumes "parse_json raw = Some v" "\<nexists>vs. v = JArr vs" "\<nexists>ms. v = JObj ms"
  shows "(case unmarshal_scalar raw of None \<Rightarrow> Inl CErrJSON | Some v \<Rightarrow> Inr (marshal_scalar v)) =
    result (canon v)"
  using assms
  by (cases v) (auto simp add: unmarshal_scalar_def canon_number_def split: option.split)

text \<open>The first character tells the kind of a document.\<close>

lemma pscalar_kind: "pscalar s = Some (v, r) \<Longrightarrow> (\<nexists>vs. v = JArr vs) \<and> (\<nexists>ms. v = JObj ms)"
  by (cases s) (auto simp add: pscalar_def dest: pword_value split: if_splits)

lemma parse_json_kind:
  assumes "parse_json (c # u) = Some v" "\<not> is_space c"
  shows "c = CHR ''{'' \<longleftrightarrow> (\<exists>ms. v = JObj ms)" "c = CHR ''['' \<longleftrightarrow> (\<exists>vs. v = JArr vs)"
proof -
  obtain d where d: "maxNestingDepth = Suc d" by (auto simp add: maxNestingDepth_def numeral_eq_Suc)
  from assms obtain r where r: "pval (Suc d) (c # u) = Some (v, r)"
    by (auto simp add: parse_json_def d skip_ws_def simp del: pval.simps split: option.splits if_splits prod.splits)
  consider "c = CHR ''[''" "parray (pval d) u = Some (v, r)" | "c = CHR ''{''" "pobject (pval d) u = Some (v, r)"
    | "c \<noteq> CHR ''[''" "c \<noteq> CHR ''{''" "pscalar (c # u) = Some (v, r)"
    using r by (auto split: if_splits)
  then have "(c = CHR ''{'' \<longleftrightarrow> (\<exists>ms. v = JObj ms)) \<and> (c = CHR ''['' \<longleftrightarrow> (\<exists>vs. v = JArr vs))"
  proof cases
    case 1
    then have "\<exists>vs. v = JArr vs"
      by (auto simp add: parray_def simp del: elems.simps split: list.splits if_splits)
    with 1 show ?thesis by auto
  next
    case 2
    then have "\<exists>ms. v = JObj ms"
      by (auto simp add: pobject_def simp del: members.simps split: list.splits if_splits)
    with 2 show ?thesis by auto
  next
    case 3
    then show ?thesis using pscalar_kind by blast
  qed
  then show "c = CHR ''{'' \<longleftrightarrow> (\<exists>ms. v = JObj ms)" "c = CHR ''['' \<longleftrightarrow> (\<exists>vs. v = JArr vs)" by blast+
qed

lemma canonicaliseRaw_parsed:
  "parse_json raw = Some v \<Longrightarrow> solid raw \<Longrightarrow> canonicaliseRaw raw = result (canon v)"
proof (induction "length raw" arbitrary: raw v rule: less_induct)
  case less
  have IH: "canonicaliseRaw (fst rv) = result (canon (snd rv))" if "piece raw rv" for rv
    using less.hyps that by (simp add: piece_def)
  obtain c u where raw: "raw = c # u" using less.prems(2) by (cases raw) (auto simp add: solid_def)
  have "\<not> is_space c"
    using solid_skip_ws [OF less.prems(2)] by (auto simp add: raw skip_ws_def dropWhile_eq_Cons_conv)
  note kind = parse_json_kind [OF less.prems(1) [unfolded raw] this]
  note step = canonicaliseRaw.simps [of raw, unfolded Let_def TrimSpace_solid [OF less.prems(2)]]
  consider (obj) ms where "v = JObj ms" | (arr) vs where "v = JArr vs"
    | (scalar) "\<nexists>vs. v = JArr vs" "\<nexists>ms. v = JObj ms" by blast
  then show ?case
  proof cases
    case obj
    have "serialiseObject (go_map (map (\<lambda>m. (fst m, fst (snd m))) ms)) = result (canon (JObj ms))"
      using parse_json_pieces(2) [of raw ms] less.prems(1) IH
      by (intro serialiseObject_canon represents_go_map) (simp add: obj list_all_iff)
    then show ?thesis using less.prems(1) kind obj step by (simp add: unmarshal_object_def raw)
  next
    case arr
    have "serialiseArray (map fst vs) = result (canon (JArr vs))"
      using parse_json_pieces(1) [of raw vs] less.prems(1) IH
      by (intro serialiseArray_canon) (simp add: arr list_all_iff)
    then show ?thesis using less.prems(1) kind arr step by (simp add: unmarshal_array_def raw)
  next
    case scalar
    then have "c \<noteq> CHR ''{''" "c \<noteq> CHR ''[''" using kind by auto
    then show ?thesis
      using scalar_canon [OF less.prems(1) scalar] step by (simp add: raw)
  qed
qed

lemma trimmed_solid:
  assumes "parse_json (TrimSpace raw) = Some v"
  shows "solid (TrimSpace raw)"
proof -
  let ?s = "TrimSpace raw"
  have "parse_json [] = None" by (simp add: parse_json_def skip_ws_def maxNestingDepth_def numeral_eq_Suc)
  then have ne: "?s \<noteq> []" using assms by auto
  note ends = TrimSpace_ends [OF ne]
  have "skip_ws ?s = ?s" using ne ends(1) by (cases ?s) (simp_all add: skip_ws_def)
  then obtain r where r: "pval maxNestingDepth ?s = Some (v, r)" "skip_ws r = []"
    using assms by (auto simp add: parse_json_def simp del: pval.simps split: option.splits if_splits prod.splits)
  obtain u where u: "?s = u @ r" using located.takes [OF r(1)] by blast
  have "r = []"
  proof (rule ccontr)
    assume "r \<noteq> []"
    then have "last ?s \<in> set r" by (simp add: u)
    moreover have "\<forall>c\<in>set r. is_space c" using r(2) by (simp add: skip_ws_def)
    ultimately show False using ends(2) by blast
  qed
  with r(1) show ?thesis using pval_solid by simp
qed

lemma TrimSpace_twice: "parse_json (TrimSpace raw) = Some v \<Longrightarrow> TrimSpace (TrimSpace raw) = TrimSpace raw"
  by (intro TrimSpace_solid trimmed_solid)

lemma canonicaliseRaw_eq:
  "canonicaliseRaw raw =
     (if TrimSpace raw = [] then Inl CErrEmpty
      else case parse_json (TrimSpace raw) of None \<Rightarrow> Inl CErrJSON | Some v \<Rightarrow> result (canon v))"
proof (cases "parse_json (TrimSpace raw)")
  case None
  then show ?thesis
    by (subst canonicaliseRaw.simps)
       (auto simp add: Let_def unmarshal_object_def unmarshal_array_def unmarshal_scalar_def split: list.split)
next
  case (Some v)
  have "canonicaliseRaw raw = canonicaliseRaw (TrimSpace raw)"
    unfolding canonicaliseRaw.simps [of raw] canonicaliseRaw.simps [of "TrimSpace raw"]
      TrimSpace_twice [OF Some] ..
  also have "\<dots> = result (canon v)"
    using Some trimmed_solid [OF Some] by (rule canonicaliseRaw_parsed)
  finally show ?thesis using trimmed_solid [OF Some] Some by (auto simp add: solid_def)
qed

end
