(* ===== verification/CanonicalProperties.thy ===== *)
theory CanonicalProperties
  imports CanonicalJson
begin

text \<open>
  The properties of the canonical JSON package: what its bytes are, that they are a normal form,
  and what a signature over them binds.
\<close>

section \<open>The normal form\<close>

text \<open>C9: every output is the printed canonical tree of its input. The code parses level after level
  from the source text of the values; the specification parses the document once. Nothing but white
  space, a text that is no JSON document, and a number that overflows a double give an error.\<close>

theorem canonicaliseRaw_spec:
  "canonicaliseRaw raw =
     (if TrimSpace raw = [] then Inl CErrEmpty
      else case Option.bind (parse_json (TrimSpace raw)) canon of
             None \<Rightarrow> Inl CErrJSON
           | Some t \<Rightarrow> Inr (jprint t))"
  by (simp add: canonicaliseRaw_eq result_def split: option.split)

lemma canonicaliseRaw_text:
  "canonicaliseRaw raw = Inr b \<Longrightarrow> \<exists>v t. parse_json (TrimSpace raw) = Some v \<and> canon v = Some t \<and> canonical_text t b"
  by (auto simp add: canonicaliseRaw_eq result_eq_Inr parsed_canonical split: if_splits option.splits)

lemma canonical_text_fixed:
  assumes "canonical_text t b"
  shows "canonicaliseRaw b = Inr b"
proof -
  note parse = canonical_text_parse [OF assms]
  have b: "b = jprint t" "tree_ok t" "canonical t"
    using assms canonical_ok by (auto simp add: canonical_text_def)
  then obtain c u where u: "b = c # u" "\<not> is_space c" using jprint_starts [of t] by (auto simp add: starts_def)
  have "pval maxNestingDepth (b @ []) = Some (annot t, [])"
    using assms b unfolding b(1) by (intro pval_jprint) (simp_all add: canonical_text_def)
  then have "solid b" using pval_solid by simp
  then show ?thesis using canonicaliseRaw_parsed [OF parse] canon_annot [OF b(3)] b(1) by simp
qed

text \<open>C19: the outputs are exactly the canonical texts: printed trees whose keys are valid UTF-8 and
  strictly increasing at every level, whose numbers are the shortest text of a double, and whose
  containers nest at most 10000 deep.\<close>

theorem canonicaliseRaw_image:
  "(\<exists>raw. canonicaliseRaw raw = Inr b) \<longleftrightarrow>
     (\<exists>t. canonical t \<and> tree_depth t \<le> maxNestingDepth \<and> b = jprint t)"
  using canonicaliseRaw_text canonical_text_fixed unfolding canonical_text_def by blast

text \<open>C18: the canonical form is a normal form. Canonicalising it again changes nothing, it holds no
  white space outside strings and nothing left to escape, and it parses back to a tree with sorted
  keys.\<close>

theorem canonicaliseRaw_idempotent:
  assumes "canonicaliseRaw raw = Inr b"
  shows "canonicaliseRaw b = Inr b \<and> compact b = Some b \<and>
    (\<exists>t. parse_tree b = Some t \<and> tree_sorted t)"
proof -
  obtain t where t: "canonical_text t b" using canonicaliseRaw_text [OF assms] by blast
  have "strip (annot t) = t" using t by (simp add: strip_annot canonical_ok canonical_text_def)
  then have "parse_tree b = Some t" using canonical_text_parse [OF t] by (simp add: parse_tree_def)
  with t show ?thesis
    using canonical_text_fixed canonical_text_compact canonical_ok by (auto simp add: canonical_text_def)
qed

lemma canonicaliseRaw_empty_object: "canonicaliseRaw ''{ }'' = Inr ''{}''"
proof -
  have "parse_json ''{ }'' = Some (JObj [])"
    by (simp add: parse_json_def maxNestingDepth_def numeral_eq_Suc skip_ws_def is_space_def pobject_def)
  moreover have "solid ''{ }''" by (simp add: solid_def graphic_def)
  ultimately show ?thesis
    by (simp add: canonicaliseRaw_parsed sorted_keys_def enc_object_def)
qed

theorem canonicaliseRaw_idempotent_witness:
  "canonicaliseRaw ''{}'' = Inr ''{}'' \<and> compact ''{}'' = Some ''{}'' \<and>
    (\<exists>t. parse_tree ''{}'' = Some t \<and> tree_sorted t)"
  by (rule canonicaliseRaw_idempotent [OF canonicaliseRaw_empty_object])

section \<open>Signed content\<close>

definition unsigned_fields :: "string set" where
  "unsigned_fields = {''signature'', ''pubkey_b64''}"

definition signed_members :: "(string \<times> string \<times> json) list \<Rightarrow> (string \<times> string \<times> json) list" where
  "signed_members ms = filter (\<lambda>m. fst m \<notin> unsigned_fields) ms"

lemma represents_signed:
  "represents m ms \<Longrightarrow>
   represents (AList.delete ''pubkey_b64'' (AList.delete ''signature'' m)) (signed_members ms)"
  using represents_delete [OF represents_delete]
  by (fastforce simp add: signed_members_def unsigned_fields_def conj_commute)

lemma serialise_signed:
  assumes "parse_json raw = Some (JObj ms)"
  shows "serialiseObject (AList.delete ''pubkey_b64'' (AList.delete ''signature''
      (go_map (map (\<lambda>m. (fst m, fst (snd m))) ms)))) = result (canon (JObj (signed_members ms)))"
proof (rule serialiseObject_canon [OF represents_signed [OF represents_go_map]])
  fix x
  assume "x \<in> set (signed_members ms)"
  then have "piece raw (snd x)"
    using parse_json_pieces(2) [OF assms] by (auto simp add: signed_members_def list_all_iff)
  then show "canonicaliseRaw (fst (snd x)) = result (canon (snd (snd x)))"
    by (simp add: piece_def canonicaliseRaw_parsed)
qed

text \<open>C20: the signed bytes of an object are the canonical form of its members without
  \<open>signature\<close> and \<open>pubkey_b64\<close>, every other member included; \<open>null\<close> is taken for an empty object;
  any other document is refused.\<close>

theorem MarshalForSigning_spec:
  "MarshalForSigning jm v =
     (case jm v of
        None \<Rightarrow> Inl CErrMarshalSigning
      | Some raw \<Rightarrow>
          (case parse_json raw of
             Some (JObj ms) \<Rightarrow>
               (case canon (JObj (filter (\<lambda>m. fst m \<notin> {''signature'', ''pubkey_b64''}) ms)) of
                  None \<Rightarrow> Inl CErrJSON
                | Some t \<Rightarrow> Inr (jprint t))
           | Some JNull \<Rightarrow> Inr ''{}''
           | _ \<Rightarrow> Inl CErrNotObject))"
proof -
  have "serialiseObject [] = Inr ''{}''" by (simp add: serialiseObject.simps enc_object_def)
  then show ?thesis
    using serialise_signed
    by (simp add: MarshalForSigning_def unmarshal_object_def result_def signed_members_def
        unsigned_fields_def del: canon.simps split: option.split json.split)
qed

text \<open>What a member says: nothing when it is absent, and its canonical tree otherwise.\<close>

definition member_form :: "(string \<times> string \<times> json) list \<Rightarrow> string \<Rightarrow> jtree option" where
  "member_form ms k = Option.bind (map_of (rev ms) k) (\<lambda>rv. canon (snd rv))"

lemma map_of_filter_keys: "map_of (filter (\<lambda>m. fst m \<notin> S) xs) k = (if k \<in> S then None else map_of xs k)"
  by (induction xs) auto

lemma member_form_signed:
  "member_form (signed_members ms) k = (if k \<in> unsigned_fields then None else member_form ms k)"
  by (simp add: member_form_def signed_members_def rev_filter map_of_filter_keys)

lemma object_form:
  assumes "canon (JObj ms) = Some (TObj ts)"
  shows "map_of ts = member_form ms"
proof
  fix k
  have ts: "map fst ts = sorted_keys ms" "\<forall>m\<in>set ts. canon (snd (last_value ms (fst m))) = Some (snd m)"
    using assms unfolding canon_JObj by auto
  have keys: "fst ` set ts = fst ` set ms" using arg_cong [OF ts(1), of set] by simp
  show "map_of ts k = member_form ms k"
  proof (cases "k \<in> fst ` set ms")
    case True
    then obtain x where x: "map_of ts k = Some x" using keys by (metis map_of_eq_None_iff option.exhaust)
    from True obtain rv where "map_of (rev ms) k = Some rv"
      by (metis map_of_eq_None_iff option.exhaust set_rev)
    then have "member_form ms k = canon (snd (last_value ms k))"
      by (simp add: member_form_def last_value_def)
    with x ts(2) map_of_SomeD [OF x] show ?thesis by auto
  next
    case False
    then have "map_of ts k = None" "map_of (rev ms) k = None"
      using keys by (simp_all add: map_of_eq_None_iff)
    then show ?thesis by (simp add: member_form_def)
  qed
qed

lemma sorted_map_of_inject:
  fixes ts us :: "('a :: linorder \<times> 'b) list"
  assumes "sorted_wrt (<) (map fst ts)" "sorted_wrt (<) (map fst us)" "map_of ts = map_of us"
  shows "ts = us"
proof -
  have "fst ` set ts = fst ` set us" using assms(3) by (simp flip: dom_map_of_conv_image_fst)
  then have "map fst ts = map fst us"
    using assms(1,2) by (intro sorted_distinct_set_unique) (simp_all only: strict_sorted_iff set_map)
  moreover have "set ts = set us"
    using assms by (metis map_of_eqI set_map_of_compr strict_sorted_iff)
  ultimately show ?thesis
    using assms(1) by (intro map_inj_on [of fst]) (auto simp add: strict_sorted_iff distinct_map)
qed

lemma json_depth_filter: "json_depth (JObj (filter P ms)) \<le> json_depth (JObj ms)"
  by (induction ms) auto

lemma signed_text:
  assumes "parse_json raw = Some (JObj ms)" "canon (JObj (signed_members ms)) = Some t"
  shows "canonical_text t (jprint t)"
proof -
  have "json_utf8 (JObj (signed_members ms))" "json_depth (JObj (signed_members ms)) \<le> maxNestingDepth"
    using parse_json_utf8 [OF assms(1)] parse_json_depth [OF assms(1)]
      json_depth_filter [of "\<lambda>m. fst m \<notin> unsigned_fields" ms]
    by (auto simp add: signed_members_def list_all_iff simp del: json_depth.simps)
  then show ?thesis
    using canon_canonical [OF assms(2)] canon_depth [OF assms(2)] by (simp add: canonical_text_def)
qed

lemma MarshalForSigning_object:
  assumes "jm v = Some raw" "parse_json raw = Some (JObj ms)" "MarshalForSigning jm v = Inr b"
  obtains ts where "canonical_text (TObj ts) b" "map_of ts = member_form (signed_members ms)"
proof -
  from assms obtain t where t: "canon (JObj (signed_members ms)) = Some t" "b = jprint t"
    using serialise_signed [OF assms(2)]
    by (auto simp add: MarshalForSigning_def unmarshal_object_def result_eq_Inr simp del: canon.simps)
  moreover from this obtain ts where "t = TObj ts" unfolding canon_JObj by blast
  ultimately show thesis using that signed_text [OF assms(2) t(1)] object_form by blast
qed

text \<open>C10: signed bytes bind the signed content. Two objects give the same bytes exactly when every
  member except \<open>signature\<close> and \<open>pubkey_b64\<close> says the same in both; in particular a different
  \<open>nonce\<close> changes the bytes, and the order of the members and their white space do not.\<close>

theorem MarshalForSigning_binding:
  assumes "jm v = Some raw" "parse_json raw = Some (JObj ms)" "MarshalForSigning jm v = Inr b"
    and "jm w = Some raw'" "parse_json raw' = Some (JObj ms')" "MarshalForSigning jm w = Inr c"
  shows "b = c \<longleftrightarrow>
    (\<forall>k. k \<noteq> ''signature'' \<and> k \<noteq> ''pubkey_b64'' \<longrightarrow> member_form ms k = member_form ms' k)"
proof -
  obtain ts where ts: "canonical_text (TObj ts) b" "map_of ts = member_form (signed_members ms)"
    using MarshalForSigning_object [OF assms(1-3)] .
  obtain us where us: "canonical_text (TObj us) c" "map_of us = member_form (signed_members ms')"
    using MarshalForSigning_object [OF assms(4-6)] .
  have "b = c \<longleftrightarrow> ts = us" using canonical_text_inject [OF ts(1) us(1)] by simp
  also have "\<dots> \<longleftrightarrow> map_of ts = map_of us"
    using ts(1) us(1) sorted_map_of_inject by (auto simp add: canonical_text_def)
  also have "\<dots> \<longleftrightarrow> (\<forall>k. k \<notin> unsigned_fields \<longrightarrow> member_form ms k = member_form ms' k)"
    by (auto simp add: ts(2) us(2) fun_eq_iff member_form_signed)
  finally show ?thesis by (auto simp add: unsigned_fields_def)
qed

text \<open>A marshaller on trees, and a request that is signed twice.\<close>

definition marshal_tree :: "jtree \<Rightarrow> string option" where
  "marshal_tree t = Some (jprint t)"

definition request :: "string \<Rightarrow> jtree" where
  "request sig = TObj [(''nonce'', TStr ''n''), (''signature'', TStr sig)]"

lemma request_parses:
  assumes "ord_of c < 128"
  shows "parse_json (jprint (request [c])) = Some (JObj
    [(''nonce'', quote ''n'', JStr ''n''), (''signature'', quote [c], JStr [c])])"
proof -
  have "clean ''nonce'' = ''nonce''" "clean ''signature'' = ''signature''" "clean ''n'' = ''n''" "clean [c] = [c]"
    using assms by (intro clean_valid utf8_valid_ascii; simp)+
  moreover have "parse_json (jprint (request [c])) = Some (annot (request [c]))"
    by (rule parse_jprint) (simp_all add: request_def maxNestingDepth_def)
  ultimately show ?thesis by (simp add: request_def)
qed

lemma request_signed:
  assumes "ord_of c < 128"
  shows "MarshalForSigning marshal_tree (request [c]) = Inr (jprint (TObj [(''nonce'', TStr ''n'')]))"
  using serialise_signed [OF request_parses [OF assms]] request_parses [OF assms]
  by (simp add: MarshalForSigning_def unmarshal_object_def marshal_tree_def signed_members_def
      unsigned_fields_def sorted_keys_def last_value_def)

theorem MarshalForSigning_binding_witness:
  "jprint (TObj [(''nonce'', TStr ''n'')]) = jprint (TObj [(''nonce'', TStr ''n'')]) \<longleftrightarrow>
     (\<forall>k. k \<noteq> ''signature'' \<and> k \<noteq> ''pubkey_b64'' \<longrightarrow>
       member_form [(''nonce'', quote ''n'', JStr ''n''), (''signature'', quote ''s'', JStr ''s'')] k =
       member_form [(''nonce'', quote ''n'', JStr ''n''), (''signature'', quote ''t'', JStr ''t'')] k)"
  by (rule MarshalForSigning_binding [of marshal_tree _ _ _ _ _ _ _ _,
        OF marshal_tree_def request_parses request_signed marshal_tree_def request_parses request_signed])
     simp_all

section \<open>Large integers\<close>

lemma double_2_53: "round_double 9007199254740992 1 = Some (2 ^ 52, 1)"
  and double_2_53_1: "round_double 9007199254740993 1 = Some (2 ^ 52, 1)"
proof -
  have fits: "find (exponent_fits p 1) [minExp..maxExp] = Some 1"
    if "2 ^ 53 \<le> p" "p < 2 ^ 54" for p
  proof -
    have "\<not> exponent_fits p 1 i" if "i < 1" for i
    proof -
      have "(2 :: nat) ^ 53 * 1 \<le> p * 2 ^ nat (- i)" using \<open>2 ^ 53 \<le> p\<close> by (intro mult_le_mono) simp_all
      with that show ?thesis by (simp add: exponent_fits_def scaled_def)
    qed
    moreover have "exponent_fits p 1 1" using that by (simp add: exponent_fits_def scaled_def)
    moreover have "minExp \<le> 1" "1 \<le> maxExp" by (simp_all add: minExp_def maxExp_def)
    ultimately show ?thesis unfolding find_upto by blast
  qed
  show "round_double 9007199254740992 1 = Some (2 ^ 52, 1)"
    unfolding round_double_def using fits [of 9007199254740992] by (simp add: scaled_def round_even_def)
  show "round_double 9007199254740993 1 = Some (2 ^ 52, 1)"
    unfolding round_double_def using fits [of 9007199254740993] by (simp add: scaled_def round_even_def)
qed

lemma integer_text:
  "ParseFloat (format_nat n) = map_option (Pair False) (round_double n 1)"
  "parse_json (format_nat n) = Some (JNum (format_nat n))"
  "solid (format_nat n)"
proof -
  have n: "num_parts (format_nat n) []" "num_text (format_nat n) [] None = format_nat n" "exp_of None = 0"
    by (simp_all add: num_parts_def num_text_def exp_text_def exp_of_def)
  show "ParseFloat (format_nat n) = map_option (Pair False) (round_double n 1)"
    using readFloat_num_text [OF n(1), of None] n by (simp add: ParseFloat_def decimal_double_def)
  have "pnum (format_nat n) = Some (format_nat n, [])" using pnum_num_text [OF n(1), of None] n(2) by simp
  then show "parse_json (format_nat n) = Some (JNum (format_nat n))" "solid (format_nat n)"
    using parse_jprint [of "TNum (format_nat n)"] pnum_solid [of "format_nat n"] by simp_all
qed

text \<open>C22: a number goes through a double, so integers beyond \<open>2 ^ 53\<close> that round to the same double
  have the same canonical form, and signed bytes do not bind them.\<close>

theorem integers_collide:
  "\<exists>b. canonicaliseRaw (format_nat (2 ^ 53)) = Inr b \<and> canonicaliseRaw (format_nat (2 ^ 53 + 1)) = Inr b"
proof -
  have "canonicaliseRaw (format_nat n) = Inr (format_float (False, 2 ^ 52, 1))"
    if "round_double n 1 = Some (2 ^ 52, 1)" for n
    using canonicaliseRaw_parsed [OF integer_text(2,3), of n] that
    by (simp add: canon_number_def integer_text(1))
  from this [OF double_2_53] this [OF double_2_53_1] show ?thesis by simp
qed

end
