(* ===== verification/WasmMain.thy ===== *)
theory WasmMain
  imports Runner
begin

text \<open>
  \<open>cmd/gentxvalidate-wasm/main.go\<close>: the two functions the browser build registers. A JavaScript
  string argument is the \<open>string\<close> its \<open>String()\<close> gives. A panic of the run is recovered and becomes
  a failed \<open>well_formed\<close> result like every other failure. The texts of a check's reason, of a
  recovered panic and of a JSON error are the parameters \<open>rt\<close>, \<open>pt\<close> and \<open>ut\<close>: they reach the
  \<open>reason\<close> member only.
\<close>

section \<open>Launch parameters as JSON\<close>

definition zeroParams :: Params where
  "zeroParams = \<lparr>ChainID = [], BondDenom = [], Bech32Prefix = [], ParamMinSelfDelegation = [],
     MinCommissionRate = [], MaxCommissionRate = [], MaxCommissionChangeRate = [], MaxMonikerLen = 0\<rparr>"

definition paramsJSON :: "Params fields" where
  "paramsJSON =
     [field ''chain_id'' ChainID ChainID_update dec_string,
      field ''bond_denom'' BondDenom BondDenom_update dec_string,
      field ''bech32_prefix'' Bech32Prefix Bech32Prefix_update dec_string,
      field ''min_self_delegation'' ParamMinSelfDelegation ParamMinSelfDelegation_update dec_string,
      field ''min_commission_rate'' MinCommissionRate MinCommissionRate_update dec_string,
      field ''max_commission_rate'' MaxCommissionRate MaxCommissionRate_update dec_string,
      field ''max_commission_change_rate'' MaxCommissionChangeRate MaxCommissionChangeRate_update dec_string,
      field ''max_moniker_len'' MaxMonikerLen MaxMonikerLen_update dec_int]"

section \<open>Results as JSON\<close>

definition resultJSON :: "string \<Rightarrow> bool \<Rightarrow> string \<Rightarrow> string" where
  "resultJSON invariant ok reason =
     enc_object (str_member ''invariant'' invariant @ [(''ok'', if ok then ''true'' else ''false'')] @
       omitempty ''reason'' reason)"

definition reasonText :: "(reason \<Rightarrow> string) \<Rightarrow> Result \<Rightarrow> string" where
  "reasonText rt r = (case Reason r of NoReason \<Rightarrow> [] | x \<Rightarrow> rt x)"

definition marshalResults :: "(reason \<Rightarrow> string) \<Rightarrow> Result list \<Rightarrow> string" where
  "marshalResults rt rs = enc_array (map (\<lambda>r. resultJSON (Invariant r) (OK r) (reasonText rt r)) rs)"

definition errorJSON :: "string \<Rightarrow> string" where
  "errorJSON reason = enc_array [resultJSON InvWellFormed False reason]"

section \<open>The registered functions\<close>

type_synonym run = "bytes \<Rightarrow> Params \<Rightarrow> Result list outcome"

definition runner ::
  "(reason \<Rightarrow> string) \<Rightarrow> string \<Rightarrow> (string \<Rightarrow> string) \<Rightarrow> run \<Rightarrow> string list \<Rightarrow> string" where
  "runner rt pt ut run args =
     (if length args \<noteq> 2 then errorJSON ''expected (gentxJSON, paramsJSON)''
      else
        case Unmarshal paramsJSON (args ! 1) zeroParams of
          None \<Rightarrow> errorJSON (''invalid params JSON: '' @ ut (args ! 1))
        | Some p \<Rightarrow>
            (case run (bytes_of (args ! 0)) p of
               Panic \<Rightarrow> errorJSON (''internal error: '' @ pt)
             | Ret results \<Rightarrow> marshalResults rt results))"

text \<open>\<open>main\<close> sets two properties of the global object.\<close>

definition main ::
  "('pk, 'sc) externals \<Rightarrow> (reason \<Rightarrow> string) \<Rightarrow> string \<Rightarrow> (string \<Rightarrow> string) \<Rightarrow>
   (string \<rightharpoonup> (string list \<Rightarrow> string)) \<Rightarrow> (string \<rightharpoonup> (string list \<Rightarrow> string))" where
  "main X rt pt ut global =
     global(''seedwardRunLight'' \<mapsto> runner rt pt ut (\<lambda>raw p. Ret (RunLight X raw p)),
            ''seedwardRunAll'' \<mapsto> runner rt pt ut (RunAll X))"

section \<open>What the browser reads\<close>

text \<open>The invariant and the verdict of every entry of the returned text.\<close>

definition entry :: "json \<Rightarrow> (string \<times> bool) option" where
  "entry v =
     (case v of
        JObj ms \<Rightarrow>
          (case (map_of ms ''invariant'', map_of ms ''ok'') of
             (Some (_, JStr i), Some (_, JBool b)) \<Rightarrow> Some (i, b)
           | _ \<Rightarrow> None)
      | _ \<Rightarrow> None)"

definition report :: "string \<Rightarrow> (string \<times> bool) list option" where
  "report s =
     (case parse_json s of
        Some (JArr vs) \<Rightarrow> those (map (\<lambda>v. entry (snd v)) vs)
      | _ \<Rightarrow> None)"

definition result_tree :: "string \<Rightarrow> bool \<Rightarrow> string \<Rightarrow> jtree" where
  "result_tree i ok reason =
     TObj ([(''invariant'', TStr i), (''ok'', TBool ok)] @
       (if reason = [] then [] else [(''reason'', TStr reason)]))"

lemma resultJSON_tree: "resultJSON i ok reason = jprint (result_tree i ok reason)"
  by (simp add: resultJSON_def result_tree_def str_member_def omitempty_def)

lemma result_tree_props [simp]: "tree_ok (result_tree i ok reason)" "tree_depth (result_tree i ok reason) = 1"
  by (simp_all add: result_tree_def)

lemma member_names [simp]:
  "clean ''invariant'' = ''invariant''" "clean ''ok'' = ''ok''" "clean ''reason'' = ''reason''"
  by (intro clean_valid utf8_valid_ascii; simp)+

lemma entry_result_tree: "entry (annot (result_tree i ok reason)) = Some (clean i, ok)"
  by (simp add: entry_def result_tree_def)

lemma report_results:
  "report (enc_array (map (\<lambda>r. resultJSON (i r) (ok r) (reason r)) rs)) =
     Some (map (\<lambda>r. (clean (i r), ok r)) rs)"
proof -
  let ?t = "\<lambda>r. result_tree (i r) (ok r) (reason r)"
  have "foldr max (map (\<lambda>r. tree_depth (?t r)) rs) 0 \<le> 1" by (simp add: foldr_max_le)
  then have "parse_json (jprint (TArr (map ?t rs))) = Some (annot (TArr (map ?t rs)))"
    by (intro parse_jprint) (simp_all add: list_all_iff maxNestingDepth_def comp_def)
  moreover have "those (map (\<lambda>r. Some (f r)) xs) = Some (map f xs)" for f :: "'x \<Rightarrow> string \<times> bool" and xs
    by (induction xs) simp_all
  ultimately show ?thesis
    by (simp add: report_def resultJSON_tree comp_def entry_result_tree)
qed

lemma report_error: "report (errorJSON reason) = Some [(InvWellFormed, False)]"
proof -
  have "clean InvWellFormed = InvWellFormed"
    by (intro clean_valid utf8_valid_ascii) (simp add: InvWellFormed_def)
  then show ?thesis
    using report_results [of "\<lambda>_. InvWellFormed" "\<lambda>_. False" "\<lambda>_. reason" "[()]"]
    by (simp add: errorJSON_def)
qed

text \<open>
  The contract of a run: the identifiers of its results are plain text, and its results all pass
  exactly on the inputs of the specification.
\<close>

locale run_contract =
  fixes run :: run and spec :: "bytes \<Rightarrow> Params \<Rightarrow> bool"
  assumes run_ids: "run raw p = Ret rs \<Longrightarrow> r \<in> set rs \<Longrightarrow> utf8_valid (Invariant r)"
    and run_accepts: "run raw p = Ret rs \<Longrightarrow> AllOK rs \<longleftrightarrow> spec raw p"
begin

lemma runner_report:
  "report (runner rt pt ut run args) = Some
     (case args of
        [gentx, params] \<Rightarrow>
          (case Unmarshal paramsJSON params zeroParams of
             None \<Rightarrow> [(InvWellFormed, False)]
           | Some p \<Rightarrow>
               (case run (bytes_of gentx) p of
                  Panic \<Rightarrow> [(InvWellFormed, False)]
                | Ret rs \<Rightarrow> map (\<lambda>r. (Invariant r, OK r)) rs))
      | _ \<Rightarrow> [(InvWellFormed, False)])"
proof (cases "length args = 2")
  case True
  then obtain g q where args: "args = [g, q]" by (auto simp add: length_Suc_conv numeral_eq_Suc)
  have "map (\<lambda>r. (clean (Invariant r), OK r)) rs = map (\<lambda>r. (Invariant r, OK r)) rs"
    if "run (bytes_of g) p = Ret rs" for p rs
    using run_ids [OF that] by simp
  then show ?thesis
    by (simp add: args runner_def report_error marshalResults_def report_results
        split: option.split outcome.split)
next
  case False
  then have "runner rt pt ut run args = errorJSON ''expected (gentxJSON, paramsJSON)''"
    by (simp add: runner_def)
  moreover have "(case args of [g, q] \<Rightarrow> f g q | _ \<Rightarrow> x) = x" for f and x :: "(string \<times> bool) list"
    using False by (auto split: list.split)
  ultimately show ?thesis by (simp add: report_error)
qed

lemma runner_accepts:
  "(\<exists>rs. report (runner rt pt ut run args) = Some rs \<and> list_all snd rs) \<longleftrightarrow>
     (\<exists>gentx params p. args = [gentx, params] \<and> Unmarshal paramsJSON params zeroParams = Some p \<and>
        run (bytes_of gentx) p \<noteq> Panic \<and> spec (bytes_of gentx) p)"
proof -
  have "list_all snd (map (\<lambda>r. (Invariant r, OK r)) rs) \<longleftrightarrow> AllOK rs" for rs
    by (simp add: AllOK_iff list_all_iff)
  then show ?thesis
    using run_accepts
    by (simp add: runner_report split: list.split option.split outcome.split)
qed

end

lemma CheckSignature_ids:
  assumes "CheckSignature X g p = Ret r"
  shows "Invariant r \<in> {InvSignatureDirect, InvSignatureAminoJSON, InvSignatureUnsupportedMode}"
  using assms direct.check_result [of g p InvSignatureDirect X r] amino.check_result [of g p InvSignatureAminoJSON X r]
  by (auto simp add: CheckSignature_def signModes_def split: if_splits option.splits)

lemma ids_plain:
  "i \<in> set [InvWellFormed, InvBondDenom, InvSelfDelegation, InvCommissionConsistency,
     InvCommissionChangeRate, InvCommissionBounds, InvMoniker, InvOperatorAddress, InvConsensusPubKey,
     InvSignatureDirect, InvSignatureAminoJSON, InvSignatureUnsupportedMode] \<Longrightarrow> utf8_valid i"
  by (intro utf8_valid_ascii) (auto simp add: Inv_defs)

lemma RunLight_ids: "r \<in> set (RunLight X raw p) \<Longrightarrow> utf8_valid (Invariant r)"
  by (rule ids_plain) (cases "Decode raw"; auto simp add: RunLight_def lightChecks_def Check_Invariant)

lemma CheckSignature_plain: "CheckSignature X g p = Ret r \<Longrightarrow> utf8_valid (Invariant r)"
  by (rule ids_plain) (use CheckSignature_ids [of X g p r] in auto)

lemma RunAll_ids: "RunAll X raw p = Ret rs \<Longrightarrow> r \<in> set rs \<Longrightarrow> utf8_valid (Invariant r)"
  using RunAll_light [of X raw p rs] RunLight_ids [of r X raw p] CheckSignature_plain [of X _ p r]
  by (cases "Decode raw") auto

interpretation light_run: run_contract "\<lambda>raw p. Ret (RunLight X raw p)"
  "\<lambda>raw p. \<exists>g. Decode raw = Inr g \<and> light_ok X g p"
  by unfold_locales (auto simp add: RunLight_ids RunLight_accepts)

interpretation full_run: run_contract "RunAll X"
  "\<lambda>raw p. \<exists>g. Decode raw = Inr g \<and> acceptable X g p"
  by unfold_locales (use RunAll_ids RunAll_accepts in blast)+

section \<open>Properties\<close>

text \<open>C11: the registered functions always return a JSON array of results. It is the results of the
  run for two arguments whose second holds launch parameters, and a single failed \<open>well_formed\<close>
  otherwise, when the run panics too.\<close>

theorem seedwardRunAll_report:
  "map_option (\<lambda>f. report (f args)) (main X rt pt ut global ''seedwardRunAll'') = Some (Some
     (case args of
        [gentx, params] \<Rightarrow>
          (case Unmarshal paramsJSON params zeroParams of
             None \<Rightarrow> [(InvWellFormed, False)]
           | Some p \<Rightarrow>
               (case RunAll X (bytes_of gentx) p of
                  Panic \<Rightarrow> [(InvWellFormed, False)]
                | Ret rs \<Rightarrow> map (\<lambda>r. (Invariant r, OK r)) rs))
      | _ \<Rightarrow> [(InvWellFormed, False)]))"
  by (simp add: main_def full_run.runner_report)

text \<open>C21: the browser sees only passing results exactly when the parameters parse and the document
  decodes to a gentx that meets the eight light conditions.\<close>

theorem seedwardRunLight_accepts:
  "(\<exists>f rs. main X rt pt ut global ''seedwardRunLight'' = Some f \<and>
      report (f args) = Some rs \<and> list_all snd rs) \<longleftrightarrow>
     (\<exists>gentx params p g. args = [gentx, params] \<and> Unmarshal paramsJSON params zeroParams = Some p \<and>
        Decode (bytes_of gentx) = Inr g \<and> light_ok X g p)"
  using light_run.runner_accepts [of rt pt ut X args] by (simp add: main_def)

end
