(* ===== verification/Spec2Isabelle.thy ===== *)
theory Spec2Isabelle
  imports WireProperties SignerProperties PolicyProperties CanonicalProperties WasmMain
begin

text \<open>
  Verification of \<open>seedward-libs\<close>: the gentx validation library (\<open>src/gentxvalidate\<close>), the canonical
  JSON package (\<open>src/canonicaljson\<close>) and the browser entry point (\<open>src/cmd/gentxvalidate-wasm\<close>).

  The program. A gentx is the JSON document with which a validator joins the genesis of a Cosmos
  chain. \<open>Decode\<close> (\<open>decode.go\<close>) parses it into a \<open>ParsedGentx\<close>; the checks of \<open>invariants.go\<close> compare
  its fields with the launch parameters of \<open>params.go\<close>; \<open>CheckSignature\<close> (\<open>signmode.go\<close>) rebuilds the
  bytes the signer must have signed, by \<open>signdoc.go\<close> over \<open>protowire.go\<close> or by \<open>aminosigndoc.go\<close>, and
  verifies the signature, by \<open>verify.go\<close> or by \<open>multisig.go\<close>; \<open>address.go\<close> derives the account of the
  signer. \<open>RunLight\<close> and \<open>RunAll\<close> (\<open>runner.go\<close>) compose them into a list of results (\<open>result.go\<close>). The
  browser build wraps the two runners; the canonical JSON package is independent of them. No part
  keeps state between calls: every operation is a function of its arguments, an error is a value of
  the sum type \<open>gerr + 'a\<close>, and a function that can index out of range returns an \<open>outcome\<close>, with
  \<open>Panic\<close> for the call that does not return.

  The theories.
    \<^item> \<open>Prelude\<close>: bytes and strings, the error monad, \<open>outcome\<close>, and the locales \<open>codec\<close> and
      \<open>prefix_codec\<close>, interpreted by varints, wire fields, base64, JSON strings and JSON documents.
    \<^item> The standard library the source uses: \<open>GoText\<close> (\<open>strings\<close>, \<open>strconv\<close>, \<open>math/big\<close>), \<open>GoUtf8\<close>,
      \<open>GoBase64\<close>, \<open>GoSha256\<close>, \<open>GoJson\<close> (the reader of \<open>encoding/json\<close>), \<open>JsonLocal\<close> (the reader does not
      depend on what follows a value), \<open>GoJsonEnc\<close> (the writer, and that reading inverts it),
      \<open>GoUnmarshal\<close> (decoding into structs), \<open>GoFloat\<close> (\<open>float64\<close> read and written), \<open>GoTrim\<close>.
    \<^item> \<open>Gentx\<close>: the structs of \<open>decode.go\<close>, \<open>params.go\<close> and \<open>result.go\<close> as records. \<open>Decode\<close>: the JSON
      structs as tables of fields, and \<open>decode.go\<close>. \<open>GentxJson\<close>: the document of a gentx.
    \<^item> \<open>Protowire\<close> (\<open>protowire.go\<close>), \<open>SignDoc\<close> (\<open>signdoc.go\<close>), \<open>AminoSignDoc\<close> (\<open>aminosigndoc.go\<close>),
      \<open>Keys\<close> and \<open>Verify\<close> (\<open>verify.go\<close>), \<open>Multisig\<close> (\<open>multisig.go\<close>), \<open>Address\<close> (\<open>address.go\<close>),
      \<open>Invariants\<close> (\<open>invariants.go\<close>), \<open>SignMode\<close> (\<open>signmode.go\<close>), \<open>Runner\<close> (\<open>runner.go\<close>).
    \<^item> \<open>CanonTree\<close>: the specification of canonical JSON; \<open>CanonicalJson\<close>: \<open>canonicaljson.go\<close>.
    \<^item> \<open>WasmMain\<close>: \<open>main.go\<close>, with what a browser reads out of the returned text.
    \<^item> \<open>Samples\<close>: concrete inputs. \<open>WireProperties\<close>, \<open>SignerProperties\<close>, \<open>PolicyProperties\<close>,
      \<open>CanonicalProperties\<close>, \<open>WasmMain\<close> and this theory: the properties.
  A definition has the name of the Go function or type it translates.

  The interfaces. \<open>mode_verifier\<close> is what \<open>checkSignatureMode\<close> asks of a verifier, \<open>signing_mode\<close>
  extends it by sign bytes that determine the content, and both sign modes interpret it;
  \<open>local_parser\<close> and \<open>local_value\<close> are the contract of a tokenizer and of the value parser;
  \<open>run_contract\<close> is what the browser callback asks of a run, interpreted by both runners.

  What is shown.
    \<^item> Decoding: the decoder returns exactly the well-formed gentxs, and inverts their documents.
    \<^item> Sign bytes: both modes refine a declarative view (a list of protobuf fields, a sorted JSON tree),
      and the bytes determine the chain id, the account number and the signed content.
    \<^item> Signatures: the complete acceptance conditions of a single key and of a multisig, whose envelope
      signatures are assigned to distinct members.
    \<^item> Checks: each passes exactly under a condition on the values of its fields.
    \<^item> Runs: \<open>RunAll\<close> and \<open>RunLight\<close> pass exactly on the documents of their specifications
      \<open>acceptable\<close> and \<open>light_ok\<close>; accepted documents carry signatures over their own content.
    \<^item> Panics: the exact condition of the one index that can be out of range, and a document that has it.
    \<^item> Canonical JSON: the output is the canonical tree of the document, a normal form, and signed bytes
      bind every member but the two that are left out.
    \<^item> Browser: the callbacks return a JSON array of results on every input.

  Bounds and fuel. The loops of the JSON reader over elements and members carry fuel; one more than the
  length of the text is enough (\<open>elems_fuel\<close>, \<open>members_fuel\<close>). Its containers nest at most 10000 deep,
  as in Go. Every other recursion has a termination proof. Go's \<open>int\<close> has 64 bits: \<open>bitCount\<close> wraps
  around explicitly, and hypotheses such as \<open>length b < 2 ^ 64\<close> only exclude texts no machine holds.

  Third-party code is the record \<open>externals\<close> of parameters: the secp256k1 package, RIPEMD-160 and the
  bech32 codec. Hypotheses on it (\<open>bech32_inverts\<close>, \<open>ripemd160_len\<close>) state its documented behaviour and
  are met by \<open>sample_ext\<close>.

  Not modelled: the text of error messages and reasons, kept as constructors with their arguments and a
  parameter where \<open>main.go\<close> writes them; \<open>json.Marshal\<close> of the caller's own Go value, a parameter of
  \<open>Marshal\<close> and \<open>MarshalForSigning\<close>; the JavaScript runtime and the endless wait of \<open>main\<close>; tests and
  build files.

  What modelling showed. \<open>signerIndices\<close> can index past the bit array, because the extra bits of the
  document are not checked (\<open>RunAll_panics_on_document\<close>; the browser callback recovers). Canonical
  JSON sends numbers through \<open>float64\<close>, so large integers collide (\<open>integers_collide\<close>), and takes
  \<open>null\<close> for an empty object. An empty public key is written as an empty field although the rules at
  the head of \<open>signdoc.go\<close> omit empty bytes.
\<close>

section \<open>Decoding\<close>

text \<open>C7: the gentxs the decoder can return are exactly the well-formed ones: valid text everywhere,
  a signer whose shape fits its key type, and for a multisig a threshold between one and the number
  of keys, at least one mode, the first of which is the signer's, and extra bits that fit an int.\<close>

theorem Decode_image_wf: "gentx_wf g \<longleftrightarrow> (\<exists>data. Decode data = Inr g)"
  by (rule Decode_image)

text \<open>C8: the proto-JSON document of a well-formed gentx decodes to the gentx.\<close>

theorem Decode_roundtrip:
  assumes "gentx_wf g"
  shows "Decode (gentx_doc g) = Inr g"
  using assms by (rule Decode_gentx_doc)

theorem Decode_roundtrip_witness:
  "Decode (gentx_doc overrun_gentx) = Inr overrun_gentx"
  by (rule Decode_roundtrip [OF overrun_wf])

section \<open>The signature check\<close>

text \<open>C14: a signature is accepted exactly when a chain id is set and the sign bytes of one of the
  modes, for that chain and account number zero, exist and are signed.\<close>

theorem CheckSignature_spec:
  "case CheckSignature X g p of
     Panic \<Rightarrow> panics g p
   | Ret r \<Rightarrow> OK r \<longleftrightarrow> ChainID p \<noteq> [] \<and>
       ((\<exists>b. DirectSignBytes g (ChainID p) genesisAccountNumber = Inr b \<and> single_signed X g b) \<or>
        (\<exists>b. AminoSignBytes g (ChainID p) genesisAccountNumber = Inr b \<and> amino_signed X g b))"
  using CheckSignature_Panic [of X g p] CheckSignature_OK [of X g p]
  by (cases "CheckSignature X g p") (simp_all add: signature_ok_def)

section \<open>The runners\<close>

text \<open>C1: \<open>RunAll\<close> refines the specification of the package. It does not return exactly on the
  documents that decode to a gentx of the condition \<open>panics\<close>: an amino multisig with an ed25519
  consensus key, checked for some chain id, whose bit array counts as many bits as there are members
  but is too short to hold them. On every other document it returns, and its results all pass exactly
  when the document decodes to an acceptable gentx.\<close>

theorem RunAll_refines_spec:
  "case RunAll X raw p of
     Panic \<Rightarrow> \<exists>g. Decode raw = Inr g \<and> panics g p
   | Ret rs \<Rightarrow> \<not> (\<exists>g. Decode raw = Inr g \<and> panics g p) \<and>
       (AllOK rs \<longleftrightarrow> (\<exists>g. Decode raw = Inr g \<and> acceptable X g p))"
  using RunAll_returns [of X raw p] RunAll_accepts [of X raw p] by (cases "RunAll X raw p") auto











text \<open>C2: \<open>RunAll\<close> panics on a concrete document: a multisig of nine keys whose one-byte bit array
  claims nine extra bits. The extra bits come from the document and are not checked.\<close>

theorem RunAll_panics_on_document:
  "RunAll X (gentx_doc overrun_gentx) sample_params = Panic"
  unfolding RunAll_returns using Decode_gentx_doc [OF overrun_wf] overrun_panics by blast

text \<open>C3: apart from that, \<open>RunAll\<close> returns: it does on every gentx of a single key, and on every
  multisig whose extra bits are between 0 and 7.\<close>

theorem RunAll_safe:
  assumes "Decode raw = Inr g"
    and "case Multisig (Signer g) of
           None \<Rightarrow> True
         | Some ms \<Rightarrow> 0 \<le> ExtraBitsStored ms \<and> ExtraBitsStored ms < 8 \<and>
             length (BitarrayElems ms) < 2 ^ 59"
  shows "RunAll X raw p \<noteq> Panic"
proof
  assume "RunAll X raw p = Panic"
  then obtain ms where ms: "Multisig (Signer g) = Some ms" "bitarray_overrun ms"
    using assms(1) by (auto simp add: RunAll_returns panics_def)
  then have "bitarray_covers ms"
    using assms(2) by (intro bitarray_covers_extra) (auto simp add: bitarray_overrun_def)
  with ms(2) show False by (simp add: bitarray_overrun_def bitarray_covers_def)
qed

theorem RunAll_safe_witness:
  "RunAll (sample_ext (\<lambda>_. True)) (gentx_doc (sample_gentx signModeDirectName)) sample_params \<noteq> Panic"
  by (rule RunAll_safe [OF Decode_gentx_doc [OF sample_wf]]) (simp_all add: sample_modes)

text \<open>C4: a validator who meets the parameters and signs the sign bytes of its gentx is accepted: the
  document of the gentx runs to results that all pass.\<close>

theorem RunAll_accepts_signed:
  assumes "gentx_wf g" "light_ok X g p" "ChainID p \<noteq> []"
    and "DirectSignBytes g (ChainID p) 0 = Inr b" "single_signed X g b"
  shows "\<exists>rs. RunAll X (gentx_doc g) p = Ret rs \<and> AllOK rs"
proof -
  have "Mode (Signer g) = signModeDirectName" using assms(4) by (rule DirectSignBytes_mode)
  then have "\<not> panics g p" by (simp add: panics_def)
  then obtain rs where rs: "RunAll X (gentx_doc g) p = Ret rs"
    using RunAll_returns [of X "gentx_doc g" p] Decode_gentx_doc [OF assms(1)]
    by (cases "RunAll X (gentx_doc g) p") auto
  moreover have "acceptable X g p"
    using assms(2-5) unfolding acceptable_def signature_ok_def genesisAccountNumber_def by blast
  ultimately show ?thesis
    using RunAll_accepts [OF rs] Decode_gentx_doc [OF assms(1)] by blast
qed

theorem RunAll_accepts_signed_witness:
  "\<exists>rs. RunAll (sample_ext (\<lambda>_. True)) (gentx_doc (sample_gentx signModeDirectName)) sample_params = Ret rs \<and>
     AllOK rs"
proof (rule RunAll_accepts_signed [OF sample_wf sample_light _ sample_direct])
  show "single_signed (sample_ext (\<lambda>_. True)) (sample_gentx signModeDirectName) b" for b
    by (simp add: single_signed_def sample_secp) (simp add: sample_gentx_def sample_signer_def)
qed (simp_all add: sample_params_def)

text \<open>C16: the results of \<open>RunLight\<close> all pass exactly on the documents that decode to a gentx that meets
  the eight light conditions.\<close>

theorem RunLight_refines_spec:
  "AllOK (RunLight X raw p) \<longleftrightarrow> (\<exists>g. Decode raw = Inr g \<and> light_ok X g p)"
  by (rule RunLight_accepts)

end
